theory Spec2Isabelle
  imports Complex_Main "HOL-Library.Multiset"
begin

section \<open>JavaScript values\<close>

text \<open>
  The job documents, the request payloads and the provider's answers are JSON data read by
  JavaScript. A number is an IEEE double; the numbers that \<^verbatim>\<open>JSON.parse\<close> can produce are the
  finite ones and the two infinities (an overlong literal such as \<^verbatim>\<open>1e999\<close>), never NaN. The
  finite ones are modelled by their real value. A string is the list of its code units,
  here the code units below 256. A missing property reads as \<^verbatim>\<open>undefined\<close>.
\<close>

datatype jsnum = Finite real | PosInf | NegInf

datatype jsval =
    JUndefined
  | JNull
  | JBool bool
  | JNum jsnum
  | JStr string
  | JArr "jsval list"
  | JObj "(string \<times> jsval) list"

text \<open>Truthiness, as \<^verbatim>\<open>!v\<close>, \<^verbatim>\<open>a || b\<close> and \<^verbatim>\<open>c ? x : y\<close> test it.\<close>

fun truthy :: "jsval \<Rightarrow> bool" where
  "truthy JUndefined = False"
| "truthy JNull = False"
| "truthy (JBool b) = b"
| "truthy (JNum (Finite r)) = (r \<noteq> 0)"
| "truthy (JNum PosInf) = True"
| "truthy (JNum NegInf) = True"
| "truthy (JStr s) = (s \<noteq> [])"
| "truthy (JArr xs) = True"
| "truthy (JObj kvs) = True"

text \<open>\<^verbatim>\<open>a || b\<close>\<close>

definition js_or :: "jsval \<Rightarrow> jsval \<Rightarrow> jsval" where
  "js_or a b = (if truthy a then a else b)"

text \<open>\<^verbatim>\<open>a && b\<close>\<close>

definition js_and :: "jsval \<Rightarrow> jsval \<Rightarrow> jsval" where
  "js_and a b = (if truthy a then b else a)"

text \<open>
  \<^verbatim>\<open>v?.k\<close> for the property names the program reads (none of them is a built-in property of
  a string, an array, a number or a boolean, so only an object can have one).
\<close>

fun get_prop :: "jsval \<Rightarrow> string \<Rightarrow> jsval" where
  "get_prop (JObj kvs) k = (case map_of kvs k of Some v \<Rightarrow> v | None \<Rightarrow> JUndefined)"
| "get_prop v k = JUndefined"

fun is_string :: "jsval \<Rightarrow> bool" where
  "is_string (JStr s) = True"
| "is_string v = False"

fun is_array :: "jsval \<Rightarrow> bool" where
  "is_array (JArr xs) = True"
| "is_array v = False"


text \<open>
  The conversion to a string that a template literal and \<^verbatim>\<open>Array.prototype.join\<close> apply to a
  value; what is modelled is whether it returns, the string itself only goes into a prompt.
  It returns for every primitive value. For an object it calls the method \<^verbatim>\<open>toString\<close>, then
  \<^verbatim>\<open>valueOf\<close>, and throws a \<^verbatim>\<open>TypeError\<close> when neither is a function that returns a primitive
  value. The values here are read from JSON, so no property of theirs is a function: a
  plain object converts through the \<^verbatim>\<open>toString\<close> of its prototype unless it has a property
  \<^verbatim>\<open>toString\<close> of its own, which hides it (the \<^verbatim>\<open>valueOf\<close> of the prototype returns the object
  itself, so the conversion throws then). An array converts by joining its elements:
  \<^verbatim>\<open>null\<close> and \<^verbatim>\<open>undefined\<close> give the empty string, every other element is converted in turn.
\<close>

fun converts :: "jsval \<Rightarrow> bool" where
  "converts (JObj kvs) = (map_of kvs ''toString'' = None)"
| "converts (JArr xs) = list_all (\<lambda>x. x = JUndefined \<or> x = JNull \<or> converts x) xs"
| "converts v = True"

text \<open>\<^verbatim>\<open>xs.join(sep)\<close> returns, for the elements \<open>xs\<close> of an array.\<close>

definition joins :: "jsval list \<Rightarrow> bool" where
  "joins xs = converts (JArr xs)"
section \<open>The job document and the job store\<close>

datatype job_status = PENDING | RUNNING | SUCCEEDED | FAILED

text \<open>
  The Mongoose schema of a job. \<open>job_id\<close> is \<^verbatim>\<open>_id\<close>, \<open>jtype\<close> is \<^verbatim>\<open>type\<close>; an unset \<^verbatim>\<open>claimedBy\<close> or
  \<^verbatim>\<open>claimedAt\<close> is \<open>None\<close>; an unset \<^verbatim>\<open>result\<close>, \<^verbatim>\<open>error\<close> or \<^verbatim>\<open>model\<close> is \<open>JUndefined\<close>. Times are
  milliseconds. \<^verbatim>\<open>attempt\<close> is a \<^verbatim>\<open>Number\<close> of the schema: the worker stores there the index of
  an attempt plus one, or the configured ceiling, which need not be a whole number.
\<close>

record job =
  job_id :: string
  userId :: string
  jtype :: string
  status :: job_status
  payload :: jsval
  result :: jsval
  error :: jsval
  model :: jsval
  tokensUsed :: int
  attempt :: real
  claimedBy :: "string option"
  claimedAt :: "nat option"
  createdAt :: nat

text \<open>The collection, in its natural order; \<^verbatim>\<open>_id\<close> is unique in it.\<close>

type_synonym store = "job list"

definition wf_store :: "store \<Rightarrow> bool" where
  "wf_store s = distinct (map job_id s)"

subsection \<open>The claim step\<close>

definition allowed_types :: "string list" where
  "allowed_types = [''KEYWORDS'', ''ARTICLE'', ''SEO'', ''META'', ''IMAGE'', ''HASHTAGS'']"

text \<open>
  The filter of \<^verbatim>\<open>findOneAndUpdate\<close> in \<^verbatim>\<open>processOne\<close>: status PENDING, type among the six, and
  \<^verbatim>\<open>claimedBy\<close> missing or the instance's own identifier.
\<close>

definition claimable :: "string \<Rightarrow> job \<Rightarrow> bool" where
  "claimable inst j =
     (status j = PENDING \<and> jtype j \<in> set allowed_types \<and>
      (claimedBy j = None \<or> claimedBy j = Some inst))"

text \<open>The \<^verbatim>\<open>$set\<close> of the claim.\<close>

definition claim_update :: "string \<Rightarrow> nat \<Rightarrow> job \<Rightarrow> job" where
  "claim_update inst now j = j\<lparr>status := RUNNING, claimedBy := Some inst, claimedAt := Some now\<rparr>"

text \<open>Writing a new version of the document with a given \<^verbatim>\<open>_id\<close>.\<close>

definition replace_job :: "job \<Rightarrow> store \<Rightarrow> store" where
  "replace_job j' s = map (\<lambda>k. if job_id k = job_id j' then j' else k) s"

text \<open>
  \<^verbatim>\<open>Job.findOneAndUpdate(filter, {$set: ...}, {sort: {createdAt: 1}, new: true})\<close> as one atomic
  step on the store: the matching documents sorted by \<^verbatim>\<open>createdAt\<close> ascending, the first of
  them updated, and the updated document returned.
\<close>

definition claimOldestPending :: "string \<Rightarrow> nat \<Rightarrow> store \<Rightarrow> job option \<times> store" where
  "claimOldestPending inst now s =
     (case sort_key createdAt (filter (claimable inst) s) of
        [] \<Rightarrow> (None, s)
      | j # rest \<Rightarrow> (let j' = claim_update inst now j in (Some j', replace_job j' s)))"

text \<open>Claims issued one after the other, each by some instance at some time.\<close>

fun run_claims :: "(string \<times> nat) list \<Rightarrow> store \<Rightarrow> (string \<times> job option) list \<times> store" where
  "run_claims [] s = ([], s)"
| "run_claims ((inst, now) # cs) s =
     (case claimOldestPending inst now s of
        (r, s') \<Rightarrow> (case run_claims cs s' of (rs, s'') \<Rightarrow> ((inst, r) # rs, s'')))"

text \<open>The documents returned by the successful claims.\<close>

fun claimed :: "(string \<times> job option) list \<Rightarrow> job list" where
  "claimed [] = []"
| "claimed ((inst, None) # rs) = claimed rs"
| "claimed ((inst, Some j) # rs) = j # claimed rs"

definition pending_ids :: "store \<Rightarrow> string set" where
  "pending_ids s = job_id ` {k \<in> set s. status k = PENDING}"

section \<open>The job query API\<close>

text \<open>
  \<^verbatim>\<open>String.prototype.toLowerCase\<close> on the letters A to Z. No other code unit below 256 has
  an ASCII letter as its lower case, so tests against ASCII words agree with JavaScript.
\<close>

definition lower_char :: "char \<Rightarrow> char" where
  "lower_char c =
     (case map_of (zip ''ABCDEFGHIJKLMNOPQRSTUVWXYZ'' ''abcdefghijklmnopqrstuvwxyz'') c of
        Some l \<Rightarrow> l | None \<Rightarrow> c)"

definition toLowerCase :: "string \<Rightarrow> string" where
  "toLowerCase s = map lower_char s"

definition is_hex_digit :: "char \<Rightarrow> bool" where
  "is_hex_digit c = (c \<in> set ''0123456789abcdefABCDEF'')"

text \<open>\<^verbatim>\<open>z.string().regex(/^[a-f\d]{24}$/i)\<close>\<close>

definition idSchema :: "string \<Rightarrow> bool" where
  "idSchema x = (length x = 24 \<and> list_all is_hex_digit x)"

text \<open>
  The JSON object of a 200 answer; a key that the handler leaves out is \<open>None\<close>.
\<close>

record job_view =
  v_id :: string
  v_userId :: string
  v_type :: string
  v_status :: job_status
  v_result :: "jsval option"
  v_error :: "jsval option"
  v_tokensUsed :: "int option"
  v_model :: "jsval option"

datatype body = ErrorBody string | JobBody job_view

text \<open>
  An answer is a status code with a JSON body, or the error passed to \<^verbatim>\<open>next(err)\<close> when the
  store call rejects.
\<close>

datatype response = Json nat body | NextError

text \<open>
  \<^verbatim>\<open>Job.findById(id).lean()\<close>: the 24 hexadecimal digits are cast to an ObjectId, so their
  case does not matter; the string form of a stored \<^verbatim>\<open>_id\<close> is in lower case.
\<close>

definition findById :: "store \<Rightarrow> string \<Rightarrow> job option" where
  "findById s x = find (\<lambda>k. job_id k = toLowerCase x) s"

text \<open>The \<^verbatim>\<open>response\<close> object of the handler, with its four conditional spreads.\<close>

definition job_response :: "job \<Rightarrow> job_view" where
  "job_response j =
     \<lparr>v_id = job_id j, v_userId = userId j, v_type = jtype j, v_status = status j,
      v_result = (if result j \<noteq> JUndefined then Some (result j) else None),
      v_error = (if truthy (error j) then Some (error j) else None),
      v_tokensUsed = (if tokensUsed j \<noteq> 0 then Some (tokensUsed j) else None),
      v_model = (if truthy (model j) then Some (model j) else None)\<rparr>"

text \<open>
  The handler of \<^verbatim>\<open>GET /jobs/:id\<close>. \<open>up\<close> tells whether the store answers, \<open>user\<close> is
  \<^verbatim>\<open>req.user.id\<close> (\<open>None\<close> when missing) and \<open>x\<close> is \<^verbatim>\<open>req.params.id\<close>.
\<close>

definition get_job :: "bool \<Rightarrow> store \<Rightarrow> string option \<Rightarrow> string \<Rightarrow> response" where
  "get_job up s user x =
     (if \<not> idSchema x then Json 400 (ErrorBody ''Invalid job id format'')
      else (case user of
        None \<Rightarrow> Json 401 (ErrorBody ''Unauthorized'')
      | Some u \<Rightarrow>
          if u = [] then Json 401 (ErrorBody ''Unauthorized'')
          else if \<not> up then NextError
          else (case findById s x of
            None \<Rightarrow> Json 404 (ErrorBody ''Job not found'')
          | Some j \<Rightarrow>
              if userId j \<noteq> u then Json 404 (ErrorBody ''Job not found'')
              else Json 200 (JobBody (job_response j)))))"

section \<open>The generation provider adapter\<close>

subsection \<open>Errors\<close>

text \<open>
  A thrown \<^verbatim>\<open>Error\<close> object with the properties the program reads. A property that is not
  set is \<open>JUndefined\<close>; \<open>e_response_data\<close> is \<^verbatim>\<open>err.response?.data\<close>.
\<close>

record js_error =
  e_name :: string
  e_message :: string
  e_status :: jsval
  e_code :: jsval
  e_statusCode :: jsval
  e_raw :: jsval
  e_rawText :: jsval
  e_response_data :: jsval
  e_stack :: jsval
  e_parseError :: jsval

text \<open>
  \<^verbatim>\<open>new Error(msg)\<close> and a \<^verbatim>\<open>TypeError\<close> raised by the runtime. The stack is the error's
  heading; the frames that follow it in the runtime are left out.
\<close>

definition new_error :: "string \<Rightarrow> string \<Rightarrow> js_error" where
  "new_error name msg =
     \<lparr>e_name = name, e_message = msg, e_status = JUndefined, e_code = JUndefined,
      e_statusCode = JUndefined, e_raw = JUndefined, e_rawText = JUndefined,
      e_response_data = JUndefined, e_stack = JStr (name @ '': '' @ msg),
      e_parseError = JUndefined\<rparr>"

abbreviation Error :: "string \<Rightarrow> js_error" where
  "Error msg \<equiv> new_error ''Error'' msg"

abbreviation TypeError :: "string \<Rightarrow> js_error" where
  "TypeError msg \<equiv> new_error ''TypeError'' msg"

text \<open>
  What a \<^verbatim>\<open>throw\<close> carries: an error object, or \<^verbatim>\<open>undefined\<close> (\<open>None\<close>), which \<^verbatim>\<open>withRetry\<close>
  throws when its loop never ran.
\<close>

type_synonym thrown = "js_error option"

text \<open>\<^verbatim>\<open>String(err.message || err)\<close>: an error with an empty message prints as its name.\<close>

definition error_text :: "js_error \<Rightarrow> string" where
  "error_text e = (if e_message e \<noteq> [] then e_message e else e_name e)"

subsection \<open>Strings\<close>

fun starts_with :: "string \<Rightarrow> string \<Rightarrow> bool" where
  "starts_with s [] = True"
| "starts_with [] (p # ps) = False"
| "starts_with (c # cs) (p # ps) = (c = p \<and> starts_with cs ps)"

text \<open>\<^verbatim>\<open>s.includes(sub)\<close>\<close>

fun str_includes :: "string \<Rightarrow> string \<Rightarrow> bool" where
  "str_includes [] sub = (sub = [])"
| "str_includes (c # cs) sub = (starts_with (c # cs) sub \<or> str_includes cs sub)"

text \<open>The white space of \<^verbatim>\<open>\s\<close> and of \<^verbatim>\<open>trim\<close> among the code units below 256.\<close>

definition is_space :: "char \<Rightarrow> bool" where
  "is_space c = (c \<in> {CHR 0x09, CHR 0x0A, CHR 0x0B, CHR 0x0C, CHR 0x0D, CHR 0x20, CHR 0xA0})"

definition trim :: "string \<Rightarrow> string" where
  "trim s = rev (dropWhile is_space (rev (dropWhile is_space s)))"

subsection \<open>Numbers\<close>

text \<open>\<^verbatim>\<open>a >= b\<close>, \<^verbatim>\<open>Math.min\<close> and \<^verbatim>\<open>Math.max\<close> on the numbers of \<open>jsnum\<close>.\<close>

fun num_le :: "jsnum \<Rightarrow> jsnum \<Rightarrow> bool" where
  "num_le NegInf b = True"
| "num_le (Finite x) NegInf = False"
| "num_le (Finite x) (Finite y) = (x \<le> y)"
| "num_le (Finite x) PosInf = True"
| "num_le PosInf PosInf = True"
| "num_le PosInf b = False"

definition math_min :: "jsnum \<Rightarrow> jsnum \<Rightarrow> jsnum" where
  "math_min a b = (if num_le a b then a else b)"

definition math_max :: "jsnum \<Rightarrow> jsnum \<Rightarrow> jsnum" where
  "math_max a b = (if num_le a b then b else a)"

subsection \<open>Configuration, environment and the state of the process\<close>

text \<open>
  The environment variables the worker and the adapter read: \<^verbatim>\<open>WORKER_INSTANCE_ID\<close>,
  \<^verbatim>\<open>JOB_MAX_ATTEMPTS\<close>, \<^verbatim>\<open>AI_RETRY_ATTEMPTS\<close>, \<^verbatim>\<open>AI_RETRY_BASE_MS\<close>, \<^verbatim>\<open>DEFAULT_LOCALE\<close>, whether
  \<^verbatim>\<open>GOOGLE_API_KEY\<close> is set, \<^verbatim>\<open>GEMINI_MODEL\<close> and \<^verbatim>\<open>AI_PROVIDER\<close>, after their defaults are applied.
  The two ceilings and the base delay are \<^verbatim>\<open>Number(process.env.X || default)\<close>, which nothing
  validates: any number the variable spells, whole or not, positive or not. They are
  taken to be finite and are modelled by their real value. (A variable that spells no
  number gives NaN, under which a loop is not entered, as under a ceiling of 0 for
  \<^verbatim>\<open>withRetry\<close>; with an infinite ceiling a loop need not end.)
\<close>

record config =
  instance_id :: string
  max_attempts :: real
  retry_attempts :: real
  retry_base_ms :: real
  default_locale :: jsval
  api_key :: bool
  gemini_model :: string
  ai_provider :: string

definition default_config :: config where
  "default_config =
     \<lparr>instance_id = ''worker-1'', max_attempts = 3, retry_attempts = 3, retry_base_ms = 400,
      default_locale = JUndefined, api_key = True, gemini_model = ''gemini-2.0-flash-exp'',
      ai_provider = ''gemini''\<rparr>"

text \<open>
  One call of the provider's \<^verbatim>\<open>generateContent\<close> through \<^verbatim>\<open>exec\<close> either throws or returns the
  text of the answer and \<^verbatim>\<open>usageMetadata.totalTokenCount\<close> (\<open>None\<close> when the provider leaves
  it out).
\<close>

datatype provider_outcome = Rejects js_error | Resolves string "int option"

text \<open>
  What the process does not control: the outcome of the \<open>n\<close>-th provider call; whether the
  \<open>n\<close>-th store call of the worker fails, and with which error; \<^verbatim>\<open>JSON.parse\<close>, which returns
  a value or throws a \<^verbatim>\<open>SyntaxError\<close> with a message (\<open>Inl\<close>); and \<open>finish\<close>, the field
  normalisation that the operations other than the SEO review apply to the parsed
  answer (given the operation's name, its parameter object and the parsed answer), which
  returns the result or throws.
\<close>

record env =
  provider :: "nat \<Rightarrow> provider_outcome"
  store_fails :: "nat \<Rightarrow> js_error option"
  json_parse :: "string \<Rightarrow> string + jsval"
  finish :: "string \<Rightarrow> jsval \<Rightarrow> jsval \<Rightarrow> js_error + jsval"

text \<open>
  The state: the worker's \<^verbatim>\<open>busy\<close> flag and the job store, with what an observer can count:
  the provider calls made, the calls of the six typed operations, the store calls of the
  worker, and the delays (in ms) the process has slept, in order.
\<close>

record world =
  busy :: bool
  store :: store
  pcalls :: nat
  gcalls :: nat
  scalls :: nat
  slept :: "real list"

definition sleep :: "real \<Rightarrow> world \<Rightarrow> world" where
  "sleep ms w = w\<lparr>slept := slept w @ [ms]\<rparr>"

subsection \<open>Retry with exponential backoff\<close>

definition isRetriableError :: "thrown \<Rightarrow> bool" where
  "isRetriableError err =
     (case err of
        None \<Rightarrow> False
      | Some e \<Rightarrow>
          (let msg = toLowerCase (error_text e) in
           if str_includes msg ''etimedout'' \<or> str_includes msg ''econnreset'' \<or> str_includes msg ''abort''
           then True
           else (let code = js_or (js_or (e_status e) (e_code e)) (e_statusCode e) in
                 if code = JNum (Finite 429) then True
                 else (case code of JNum n \<Rightarrow> num_le (Finite 500) n | _ \<Rightarrow> False))))"

text \<open>
  \<^verbatim>\<open>withRetry(exec)\<close> from iteration \<open>i\<close> on, \<open>lastErr\<close> being the error of the previous
  iteration. It returns what \<^verbatim>\<open>exec\<close> returned, or throws.
\<close>

function withRetry ::
  "config \<Rightarrow> env \<Rightarrow> nat \<Rightarrow> thrown \<Rightarrow> world \<Rightarrow> (thrown + string \<times> int) \<times> world" where
  "withRetry cfg env i lastErr w =
     (if real i < retry_attempts cfg then
        (case provider env (pcalls w) of
           Resolves text tok \<Rightarrow>
             (Inr (text, case tok of None \<Rightarrow> 0 | Some n \<Rightarrow> n), w\<lparr>pcalls := Suc (pcalls w)\<rparr>)
         | Rejects err \<Rightarrow>
             (if real i = retry_attempts cfg - 1 \<or> \<not> isRetriableError (Some err)
              then (Inl (Some err), w\<lparr>pcalls := Suc (pcalls w)\<rparr>)
              else withRetry cfg env (Suc i) (Some err)
                     (sleep (retry_base_ms cfg * 2 ^ i) (w\<lparr>pcalls := Suc (pcalls w)\<rparr>))))
      else (Inl lastErr, w))"
  by pat_completeness auto
termination
proof (relation "measure (\<lambda>(cfg, env, i, lastErr, w). nat \<lceil>retry_attempts cfg\<rceil> - i)")
  fix cfg :: config and i :: nat
  assume "real i < retry_attempts cfg"
  then have "int i < \<lceil>retry_attempts cfg\<rceil>" by (simp add: less_ceiling_iff)
  then have "i < nat \<lceil>retry_attempts cfg\<rceil>" by simp
  then show "\<And>env lastErr w x2 w'. ((cfg, env, Suc i, Some x2, w'), (cfg, env, i, lastErr, w))
      \<in> measure (\<lambda>(cfg, env, i, lastErr, w). nat \<lceil>retry_attempts cfg\<rceil> - i)"
    by simp
qed simp

declare withRetry.simps [simp del]

text \<open>
  \<^verbatim>\<open>generateText\<close>. The prompts of the typed operations are non-empty strings, so its own
  check of the prompt passes; \<^verbatim>\<open>getClient\<close> throws when the API key is not set.
\<close>

definition generateText :: "config \<Rightarrow> env \<Rightarrow> world \<Rightarrow> (thrown + string \<times> int) \<times> world" where
  "generateText cfg env w =
     (if \<not> api_key cfg then (Inl (Some (Error (''GOOGLE_API_KEY is not set. Set GOOGLE_API_KEY in .env '' @
             ''(see 11-ops-runbook.md). Expected in backend/.env (same folder as index.js).''))), w)
      else withRetry cfg env 0 None w)"

subsection \<open>Parsing the provider's answer\<close>

text \<open>\<^verbatim>\<open>s.replace(/^```json\s*/i, '')\<close>\<close>

definition strip_leading_fence :: "string \<Rightarrow> string" where
  "strip_leading_fence s =
     (if toLowerCase (take 7 s) = ''```json'' then dropWhile is_space (drop 7 s) else s)"

text \<open>\<^verbatim>\<open>s.replace(/\s*```$/, '')\<close>\<close>

definition strip_trailing_fence :: "string \<Rightarrow> string" where
  "strip_trailing_fence s =
     (if take 3 (rev s) = ''```'' then rev (dropWhile is_space (drop 3 (rev s))) else s)"

definition clean_text :: "string \<Rightarrow> string" where
  "clean_text text = strip_trailing_fence (strip_leading_fence (trim text))"

text \<open>
  \<^verbatim>\<open>text.match(/\{[\s\S]*\}/)\<close>: the match starts at the first opening brace and, the star
  being greedy, ends at the last closing brace after it.
\<close>

definition json_match :: "string \<Rightarrow> string option" where
  "json_match text =
     (case dropWhile (\<lambda>c. c \<noteq> CHR ''{'') text of
        [] \<Rightarrow> None
      | b # after \<Rightarrow>
          (case dropWhile (\<lambda>c. c \<noteq> CHR ''}'') (rev after) of
             [] \<Rightarrow> None
           | r \<Rightarrow> Some (b # rev r)))"

text \<open>The error that \<^verbatim>\<open>parseJSONResponse\<close> throws.\<close>

definition parse_failed :: "string \<Rightarrow> string \<Rightarrow> js_error" where
  "parse_failed text msg =
     (Error ''JSON_PARSE_FAILED'')\<lparr>e_rawText := JStr text, e_parseError := JStr msg\<rparr>"

definition parseJSONResponse :: "(string \<Rightarrow> string + jsval) \<Rightarrow> string \<Rightarrow> js_error + jsval" where
  "parseJSONResponse parse text =
     (case parse (clean_text text) of
        Inr data \<Rightarrow> Inr data
      | Inl parseError \<Rightarrow>
          (case json_match text of
             Some m \<Rightarrow>
               (case parse m of
                  Inr data \<Rightarrow> Inr data
                | Inl secondError \<Rightarrow> Inl (parse_failed text parseError))
           | None \<Rightarrow> Inl (parse_failed text parseError)))"

text \<open>
  The spec's words for the fallback, for comparison: the first balanced \<^verbatim>\<open>{...}\<close> substring,
  that is, from the first opening brace to the closing brace that brings the nesting
  depth back to zero.
\<close>

fun balanced_prefix :: "nat \<Rightarrow> string \<Rightarrow> string option" where
  "balanced_prefix d [] = None"
| "balanced_prefix d (c # cs) =
     (if c = CHR ''}'' then
        (if d = 1 then Some [c] else map_option ((#) c) (balanced_prefix (d - 1) cs))
      else if c = CHR ''{'' then map_option ((#) c) (balanced_prefix (Suc d) cs)
      else map_option ((#) c) (balanced_prefix d cs))"

definition first_balanced :: "string \<Rightarrow> string option" where
  "first_balanced text =
     (case dropWhile (\<lambda>c. c \<noteq> CHR ''{'') text of
        [] \<Rightarrow> None
      | b # after \<Rightarrow> map_option ((#) b) (balanced_prefix 1 after))"

subsection \<open>The typed operations\<close>

text \<open>
  Each operation takes one parameter object, checks it, builds a prompt, calls
  \<^verbatim>\<open>generateText\<close>, parses the answer and normalises its fields. The prompt goes to the
  provider only, so of its construction only what can throw is written out, in the order
  of the source: the explicit checks, \<^verbatim>\<open>keywords.map\<close> on a value that is not an array, the
  \<^verbatim>\<open>join\<close> of the first keyword strings, \<^verbatim>\<open>article.content.replace\<close> on a value that is not a
  string, and the conversion to a string of each value that the template literal of the
  prompt interpolates.
\<close>

record gen_response =
  r_result :: jsval
  r_tokensUsed :: int
  r_model :: string

text \<open>A destructured parameter with a default value.\<close>

definition param_default :: "jsval \<Rightarrow> string \<Rightarrow> jsval \<Rightarrow> jsval" where
  "param_default params k d = (if get_prop params k = JUndefined then d else get_prop params k)"

text \<open>
  \<^verbatim>\<open>keywords.map(k => typeof k === 'string' ? k : (k?.keyword || k?.term || '')).filter(Boolean)\<close>
\<close>

definition keyword_strings :: "jsval list \<Rightarrow> jsval list" where
  "keyword_strings ks =
     filter truthy
       (map (\<lambda>k. if is_string k then k
                 else js_or (js_or (get_prop k ''keyword'') (get_prop k ''term'')) (JStr [])) ks)"

text \<open>
  The elements of an array (nothing for another value), the \<^verbatim>\<open>TypeError\<close> of \<^verbatim>\<open>keywords.map\<close>
  when \<^verbatim>\<open>keywords\<close> is not an array (\<^verbatim>\<open>undefined\<close> is replaced by the default before), and the
  \<^verbatim>\<open>TypeError\<close> of a conversion to a string.
\<close>

fun elements :: "jsval \<Rightarrow> jsval list" where
  "elements (JArr xs) = xs"
| "elements v = []"

definition map_error :: "jsval \<Rightarrow> js_error" where
  "map_error keywords =
     (if keywords = JNull then TypeError ''Cannot read properties of null (reading 'map')''
      else TypeError ''keywords.map is not a function'')"

definition conversion_error :: js_error where
  "conversion_error = TypeError ''Cannot convert object to primitive value''"

text \<open>
  \<^verbatim>\<open>keywordStrings.length > 0 ? keywordStrings.slice(0, n).join(', ') : topic\<close> returns: the
  first \<open>n\<close> keyword strings are joined (none when there is none).
\<close>

definition keywords_listed :: "nat \<Rightarrow> jsval \<Rightarrow> bool" where
  "keywords_listed n keywords = joins (take n (keyword_strings (elements keywords)))"

text \<open>
  The part shared by the six operations once the parameters are checked: the call of
  \<^verbatim>\<open>generateText\<close>, the parse of its text, and the normalisation \<open>normalise\<close> of the parsed answer.
\<close>

definition call_and_parse ::
  "config \<Rightarrow> env \<Rightarrow> (jsval \<Rightarrow> js_error + jsval) \<Rightarrow> world \<Rightarrow> (thrown + gen_response) \<times> world" where
  "call_and_parse cfg env normalise w =
     (case generateText cfg env w of
        (Inl t, w1) \<Rightarrow> (Inl t, w1)
      | (Inr (text, tokens), w1) \<Rightarrow>
          (case parseJSONResponse (json_parse env) text of
             Inl e \<Rightarrow> (Inl (Some e), w1)
           | Inr data \<Rightarrow>
               (case normalise data of
                  Inl e \<Rightarrow> (Inl (Some e), w1)
                | Inr res \<Rightarrow>
                    (Inr \<lparr>r_result = res, r_tokensUsed = tokens, r_model = gemini_model cfg\<rparr>,
                     w1))))"

definition entered :: "world \<Rightarrow> world" where
  "entered w = w\<lparr>gcalls := Suc (gcalls w)\<rparr>"

definition generateKeywords ::
  "config \<Rightarrow> env \<Rightarrow> jsval \<Rightarrow> world \<Rightarrow> (thrown + gen_response) \<times> world" where
  "generateKeywords cfg env params w =
     (let seed = get_prop params ''seed'' in
      if \<not> truthy seed \<or> \<not> is_string seed
      then (Inl (Some (Error ''generateKeywords: `seed` (string) is required.'')), entered w)
      else call_and_parse cfg env (finish env ''KEYWORDS'' params) (entered w))"

text \<open>
  In \<^verbatim>\<open>generateArticle\<close> the prompt interpolates the topic, a string by the check, the list
  of keywords, a string once joined, and \<^verbatim>\<open>settings?.tone || 'professional'\<close>.
\<close>

definition generateArticle ::
  "config \<Rightarrow> env \<Rightarrow> jsval \<Rightarrow> world \<Rightarrow> (thrown + gen_response) \<times> world" where
  "generateArticle cfg env params w =
     (let keywords = param_default params ''keywords'' (JArr []);
          topic = get_prop params ''topic'';
          settings = param_default params ''settings'' (JObj []);
          tone = js_or (get_prop settings ''tone'') (JStr ''professional'') in
      if \<not> truthy topic \<or> \<not> is_string topic
      then (Inl (Some (Error ''generateArticle: `topic` (string) is required.'')), entered w)
      else if \<not> is_array keywords
      then (Inl (Some (map_error keywords)), entered w)
      else if \<not> keywords_listed 10 keywords
      then (Inl (Some conversion_error), entered w)
      else if \<not> converts tone
      then (Inl (Some conversion_error), entered w)
      else call_and_parse cfg env (finish env ''ARTICLE'' params) (entered w))"

text \<open>
  The three operations on an article with a title: \<^verbatim>\<open>generateMeta\<close>, \<^verbatim>\<open>generateImage\<close> and
  \<^verbatim>\<open>generateHashtags\<close> check and prepare their parameters in the same way; they differ in the
  number \<open>n\<close> of keyword strings that they join (8, 5 and 8). Their prompt interpolates
  \<^verbatim>\<open>article.title\<close>, the topic, the list of keywords (the topic when there is no keyword
  string) and a preview of the content, a string.
\<close>

definition titled_operation ::
  "nat \<Rightarrow> string \<Rightarrow> string \<Rightarrow> config \<Rightarrow> env \<Rightarrow> jsval \<Rightarrow> world \<Rightarrow>
     (thrown + gen_response) \<times> world" where
  "titled_operation n kind name cfg env params w =
     (let article = get_prop params ''article'';
          keywords = param_default params ''keywords'' (JArr []);
          topic = get_prop params ''topic'' in
      if \<not> truthy article \<or> \<not> truthy (get_prop article ''title'') \<or> \<not> truthy topic
      then (Inl (Some (Error (name @ '': `article` with title and `topic` are required.''))),
            entered w)
      else if \<not> is_array keywords
      then (Inl (Some (map_error keywords)), entered w)
      else if \<not> keywords_listed n keywords
      then (Inl (Some conversion_error), entered w)
      else if truthy (get_prop article ''content'') \<and> \<not> is_string (get_prop article ''content'')
      then (Inl (Some (TypeError ''article.content.replace is not a function'')), entered w)
      else if \<not> converts (get_prop article ''title'') \<or> \<not> converts topic
      then (Inl (Some conversion_error), entered w)
      else call_and_parse cfg env (finish env kind params) (entered w))"

definition generateMeta ::
  "config \<Rightarrow> env \<Rightarrow> jsval \<Rightarrow> world \<Rightarrow> (thrown + gen_response) \<times> world" where
  "generateMeta = titled_operation 8 ''META'' ''generateMeta''"

definition generateImage ::
  "config \<Rightarrow> env \<Rightarrow> jsval \<Rightarrow> world \<Rightarrow> (thrown + gen_response) \<times> world" where
  "generateImage = titled_operation 5 ''IMAGE'' ''generateImage''"

definition generateHashtags ::
  "config \<Rightarrow> env \<Rightarrow> jsval \<Rightarrow> world \<Rightarrow> (thrown + gen_response) \<times> world" where
  "generateHashtags = titled_operation 8 ''HASHTAGS'' ''generateHashtags''"

subsection \<open>The SEO review\<close>

text \<open>\<^verbatim>\<open>s.replace(/<[^>]*>/g, ' ')\<close>: a tag runs from an opening angle to the next closing one.\<close>

function strip_tags :: "string \<Rightarrow> string" where
  "strip_tags [] = []"
| "strip_tags (c # cs) =
     (if c = CHR ''<'' then
        (case dropWhile (\<lambda>d. d \<noteq> CHR ''>'') cs of
           [] \<Rightarrow> c # strip_tags cs
         | g # rest \<Rightarrow> CHR '' '' # strip_tags rest)
      else c # strip_tags cs)"
  by pat_completeness auto
termination
proof (relation "measure length")
  fix c :: char and cs g rest
  assume "dropWhile (\<lambda>d. d \<noteq> CHR ''>'') cs = g # rest"
  then have "length (g # rest) \<le> length cs"
    using length_dropWhile_le [of "\<lambda>d. d \<noteq> CHR ''>''" cs] by simp
  then show "(rest, c # cs) \<in> measure length" by simp
qed simp_all

text \<open>\<^verbatim>\<open>s.replace(/\s+/g, ' ')\<close>\<close>

fun collapse_spaces :: "string \<Rightarrow> string" where
  "collapse_spaces [] = []"
| "collapse_spaces [c] = [if is_space c then CHR '' '' else c]"
| "collapse_spaces (c # d # cs) =
     (if is_space c then
        (if is_space d then collapse_spaces (d # cs) else CHR '' '' # collapse_spaces (d # cs))
      else c # collapse_spaces (d # cs))"

text \<open>\<^verbatim>\<open>s.split(/\s+/).length\<close>: one more than the number of runs of white space.\<close>

fun space_runs :: "string \<Rightarrow> nat" where
  "space_runs [] = 0"
| "space_runs [c] = (if is_space c then 1 else 0)"
| "space_runs (c # d # cs) =
     (if is_space c \<and> \<not> is_space d then Suc (space_runs (d # cs)) else space_runs (d # cs))"

definition split_length :: "string \<Rightarrow> nat" where
  "split_length s = Suc (space_runs s)"

text \<open>The decimal digits of an array index, for the keys of a spread array or string.\<close>

function decimal :: "nat \<Rightarrow> string" where
  "decimal n = (if n < 10 then [''0123456789'' ! n] else decimal (n div 10) @ [''0123456789'' ! (n mod 10)])"
  by pat_completeness auto
termination
  by (relation "measure id") auto

text \<open>
  The own enumerable properties that \<^verbatim>\<open>{...v}\<close> copies: those of an object, the elements of an
  array and the characters of a string under their indices, nothing for the other values.
\<close>

fun spread :: "jsval \<Rightarrow> (string \<times> jsval) list" where
  "spread (JObj kvs) = kvs"
| "spread (JArr xs) = map (\<lambda>i. (decimal i, xs ! i)) [0..<length xs]"
| "spread (JStr s) = map (\<lambda>i. (decimal i, JStr [s ! i])) [0..<length s]"
| "spread v = []"

text \<open>Setting a property in an object literal: in place when the key is there, else last.\<close>

definition obj_set :: "(string \<times> jsval) list \<Rightarrow> string \<Rightarrow> jsval \<Rightarrow> (string \<times> jsval) list" where
  "obj_set kvs k v =
     (if k \<in> fst ` set kvs then map (\<lambda>(k', v'). if k' = k then (k', v) else (k', v')) kvs
      else kvs @ [(k, v)])"

text \<open>The score: \<^verbatim>\<open>typeof data?.score === 'number' ? Math.max(0, Math.min(100, data.score)) : 75\<close>\<close>

definition seo_score :: "jsval \<Rightarrow> jsnum" where
  "seo_score data =
     (case get_prop data ''score'' of
        JNum n \<Rightarrow> math_max (Finite 0) (math_min (Finite 100) n)
      | _ \<Rightarrow> Finite 75)"

text \<open>\<^verbatim>\<open>Array.isArray(data?.k) ? data.k : []\<close>\<close>

definition array_or_empty :: "jsval \<Rightarrow> string \<Rightarrow> jsval" where
  "array_or_empty data k = (if is_array (get_prop data k) then get_prop data k else JArr [])"

text \<open>
  The result object that \<^verbatim>\<open>generateSEOReview\<close> builds from the parsed answer \<open>data\<close>; \<open>params\<close>
  has passed the checks, so \<^verbatim>\<open>article.content\<close> is a string and \<^verbatim>\<open>keywords\<close> an array.
\<close>

definition seo_result :: "jsval \<Rightarrow> jsval \<Rightarrow> jsval" where
  "seo_result params data =
     (let article = get_prop params ''article'';
          keywordStrings = (case param_default params ''keywords'' (JArr []) of
                              JArr ks \<Rightarrow> keyword_strings ks | _ \<Rightarrow> []);
          textContent = (case get_prop article ''content'' of
                           JStr c \<Rightarrow> trim (collapse_spaces (strip_tags c)) | _ \<Rightarrow> []);
          wordCount = split_length textContent;
          analysis = js_or (get_prop data ''analysis'') (JObj []);
          recommendations = array_or_empty data ''recommendations'';
          strengths = array_or_empty data ''strengths'';
          issues = array_or_empty data ''issues''
      in JObj
           [(''score'', JNum (seo_score data)),
            (''analysis'',
               JObj (obj_set (obj_set (spread analysis) ''strengths'' strengths)
                       ''improvements'' issues)),
            (''recommendations'', recommendations),
            (''article'',
               JObj [(''title'', get_prop article ''title''),
                     (''wordCount'', JNum (Finite (real wordCount)))]),
            (''keywords'', JArr keywordStrings),
            (''topic'', get_prop params ''topic'')])"

text \<open>
  \<^verbatim>\<open>generateSEOReview\<close> joins the first ten keyword strings; its prompt interpolates
  \<^verbatim>\<open>article.title\<close>, the topic, the list of keywords (the topic when there is no keyword
  string), the word count and a preview of the content.
\<close>

definition generateSEOReview ::
  "config \<Rightarrow> env \<Rightarrow> jsval \<Rightarrow> world \<Rightarrow> (thrown + gen_response) \<times> world" where
  "generateSEOReview cfg env params w =
     (let article = get_prop params ''article'';
          keywords = param_default params ''keywords'' (JArr []);
          topic = get_prop params ''topic'' in
      if \<not> truthy article \<or> \<not> truthy (get_prop article ''content'') \<or> \<not> truthy topic
      then (Inl (Some (Error ''generateSEOReview: `article` with content and `topic` are required.'')),
            entered w)
      else if \<not> is_array keywords
      then (Inl (Some (map_error keywords)), entered w)
      else if \<not> keywords_listed 10 keywords
      then (Inl (Some conversion_error), entered w)
      else if \<not> is_string (get_prop article ''content'')
      then (Inl (Some (TypeError ''article.content.replace is not a function'')), entered w)
      else if \<not> converts (get_prop article ''title'') \<or> \<not> converts topic
      then (Inl (Some conversion_error), entered w)
      else call_and_parse cfg env (\<lambda>data. Inr (seo_result params data)) (entered w))"

section \<open>The job runner\<close>

text \<open>
  \<^verbatim>\<open>toJobError(err, type)\<close>: the record stored in \<^verbatim>\<open>job.error\<close>. The raw snippet is capped at
  500 code units.
\<close>

definition MAX_RAW_SNIPPET :: nat where
  "MAX_RAW_SNIPPET = 500"

definition toJobError :: "config \<Rightarrow> thrown \<Rightarrow> string \<Rightarrow> jsval" where
  "toJobError cfg err type =
     (let message = (case err of None \<Rightarrow> ''Unknown error'' | Some e \<Rightarrow> error_text e);
          raw = (case err of
                   None \<Rightarrow> JStr []
                 | Some e \<Rightarrow>
                     js_or (js_or (js_or (js_or (e_raw e) (e_rawText e)) (e_response_data e))
                              (e_stack e)) (JStr []));
          rawSnippet = (case raw of JStr s \<Rightarrow> JStr (take MAX_RAW_SNIPPET s) | _ \<Rightarrow> JUndefined);
          parseError = (case err of None \<Rightarrow> JUndefined | Some e \<Rightarrow> e_parseError e);
          code = (case err of None \<Rightarrow> JUndefined | Some e \<Rightarrow> e_code e)
      in JObj
           ([(''type'', JStr type),
             (''code'', js_or code (JStr ''AI_CALL_FAILED'')),
             (''provider'', JStr (ai_provider cfg)),
             (''message'', JStr message)]
            @ (if truthy rawSnippet then [(''rawSnippet'', rawSnippet)] else [])
            @ (if truthy parseError then [(''parseError'', parseError)] else [])))"

subsection \<open>The worker's store calls\<close>

text \<open>\<^verbatim>\<open>{ _id: job._id }\<close> with an update: the document with that \<^verbatim>\<open>_id\<close> is rewritten.\<close>

definition update_job :: "string \<Rightarrow> (job \<Rightarrow> job) \<Rightarrow> store \<Rightarrow> store" where
  "update_job i f s = map (\<lambda>k. if job_id k = i then f k else k) s"

text \<open>\<^verbatim>\<open>Job.updateOne\<close>: the call fails with the store's error and changes nothing, or it writes.\<close>

definition updateOne :: "env \<Rightarrow> string \<Rightarrow> (job \<Rightarrow> job) \<Rightarrow> world \<Rightarrow> js_error option \<times> world" where
  "updateOne env i f w =
     (case store_fails env (scalls w) of
        Some e \<Rightarrow> (Some e, w\<lparr>scalls := Suc (scalls w)\<rparr>)
      | None \<Rightarrow> (None, w\<lparr>scalls := Suc (scalls w), store := update_job i f (store w)\<rparr>))"

text \<open>The claim of \<^verbatim>\<open>processOne\<close>, issued at time \<open>now\<close>.\<close>

definition findOneAndUpdate ::
  "config \<Rightarrow> env \<Rightarrow> nat \<Rightarrow> world \<Rightarrow> (js_error + job option) \<times> world" where
  "findOneAndUpdate cfg env now w =
     (case store_fails env (scalls w) of
        Some e \<Rightarrow> (Inl e, w\<lparr>scalls := Suc (scalls w)\<rparr>)
      | None \<Rightarrow>
          (case claimOldestPending (instance_id cfg) now (store w) of
             (r, s') \<Rightarrow> (Inr r, w\<lparr>scalls := Suc (scalls w), store := s'\<rparr>)))"

text \<open>The three writes of the worker.\<close>

definition success_update :: "real \<Rightarrow> gen_response \<Rightarrow> job \<Rightarrow> job" where
  "success_update a r k =
     k\<lparr>status := SUCCEEDED, result := r_result r, model := JStr (r_model r), attempt := a + 1,
       tokensUsed := tokensUsed k + r_tokensUsed r\<rparr>"

definition failed_update :: "config \<Rightarrow> js_error \<Rightarrow> job \<Rightarrow> job" where
  "failed_update cfg lastErr k =
     k\<lparr>status := FAILED, attempt := max_attempts cfg,
       error := toJobError cfg (Some lastErr) ''PROVIDER''\<rparr>"

definition uncaught_update :: "config \<Rightarrow> js_error \<Rightarrow> job \<Rightarrow> job" where
  "uncaught_update cfg err k =
     k\<lparr>status := FAILED, error := toJobError cfg (Some err) ''WORKER_UNCAUGHT''\<rparr>"

subsection \<open>One attempt\<close>

text \<open>
  The body of the \<^verbatim>\<open>try\<close> in the loop of \<^verbatim>\<open>processOne\<close>, up to the call of the typed operation:
  the arguments are read from the payload and the operation of the job's type is called.
\<close>

definition dispatch :: "config \<Rightarrow> env \<Rightarrow> job \<Rightarrow> world \<Rightarrow> (thrown + gen_response) \<times> world" where
  "dispatch cfg env job w =
     (let p = payload job;
          seed = js_or (js_and p (js_or (get_prop p ''seed'') (get_prop p ''topic'')))
                   (JStr ''untitled'');
          locale = js_or (js_or (js_and p (get_prop p ''locale'')) (default_locale cfg))
                     (JStr ''en'');
          keywords = js_or (get_prop p ''keywords'') (JArr []);
          settings = js_or (get_prop p ''settings'') (JObj []);
          title = get_prop p ''title'';
          content = get_prop p ''content'';
          article_params =
            JObj [(''article'', JObj [(''title'', title), (''content'', content)]),
                  (''keywords'', keywords), (''topic'', seed), (''locale'', locale)]
      in if jtype job = ''KEYWORDS'' then
           generateKeywords cfg env (JObj [(''seed'', seed), (''locale'', locale)]) w
         else if jtype job = ''ARTICLE'' then
           generateArticle cfg env
             (JObj [(''keywords'', keywords), (''topic'', seed), (''locale'', locale),
                    (''settings'', settings)]) w
         else if jtype job = ''SEO'' then
           (if \<not> truthy title \<or> \<not> truthy content
            then (Inl (Some (Error ''SEO job requires title and content in payload'')), w)
            else generateSEOReview cfg env article_params w)
         else if jtype job = ''META'' then
           (if \<not> truthy title \<or> \<not> truthy content
            then (Inl (Some (Error ''META job requires title and content in payload'')), w)
            else generateMeta cfg env article_params w)
         else if jtype job = ''IMAGE'' then
           (if \<not> truthy title \<or> \<not> truthy content
            then (Inl (Some (Error ''IMAGE job requires title and content in payload'')), w)
            else generateImage cfg env article_params w)
         else if jtype job = ''HASHTAGS'' then
           (if \<not> truthy title \<or> \<not> truthy content
            then (Inl (Some (Error ''HASHTAGS job requires title and content in payload'')), w)
            else generateHashtags cfg env article_params w)
         else (Inl (Some (Error (''Unsupported job type: '' @ jtype job))), w))"

text \<open>
  The whole \<^verbatim>\<open>try\<close> block of attempt \<open>a\<close>: the typed operation, then the success write.
  \<open>None\<close> when it completes, else what it throws.
\<close>

definition try_attempt :: "config \<Rightarrow> env \<Rightarrow> job \<Rightarrow> real \<Rightarrow> world \<Rightarrow> thrown option \<times> world" where
  "try_attempt cfg env job a w =
     (case dispatch cfg env job w of
        (Inl t, w1) \<Rightarrow> (Some t, w1)
      | (Inr r, w1) \<Rightarrow>
          (case updateOne env (job_id job) (success_update a r) w1 of
             (None, w2) \<Rightarrow> (None, w2)
           | (Some e, w2) \<Rightarrow> (Some (Some e), w2)))"

subsection \<open>The retry loop and the tick\<close>

text \<open>
  How the \<^verbatim>\<open>for\<close> loop ends: normally, with \<^verbatim>\<open>lastErr\<close> null (\<open>None\<close>) or an error; or by an
  exception that leaves it. The \<^verbatim>\<open>catch\<close> in the loop reads \<^verbatim>\<open>err.message\<close>, which throws a
  \<^verbatim>\<open>TypeError\<close> when the value caught is \<^verbatim>\<open>undefined\<close>. The index \<open>a\<close> starts at the stored
  \<^verbatim>\<open>job.attempt || 0\<close>, a number, and is compared with the ceiling, a number.
\<close>

datatype loop_exit = Completed "js_error option" | Escaped js_error

function attempt_loop ::
  "config \<Rightarrow> env \<Rightarrow> job \<Rightarrow> real \<Rightarrow> js_error option \<Rightarrow> world \<Rightarrow> loop_exit \<times> world" where
  "attempt_loop cfg env job a lastErr w =
     (if a < max_attempts cfg then
        (case try_attempt cfg env job a w of
           (None, w1) \<Rightarrow> (Completed None, w1)
         | (Some None, w1) \<Rightarrow>
             (Escaped (TypeError ''Cannot read properties of undefined (reading 'message')''), w1)
         | (Some (Some err), w1) \<Rightarrow>
             attempt_loop cfg env job (a + 1) (Some err) (sleep (300 + a * 300) w1))
      else (Completed lastErr, w))"
  by pat_completeness auto
termination
proof (relation "measure (\<lambda>(cfg, env, job, a, lastErr, w). nat \<lceil>max_attempts cfg - a\<rceil>)")
  fix cfg :: config and a :: real
  assume "a < max_attempts cfg"
  then have "0 < \<lceil>max_attempts cfg - a\<rceil>" by (simp add: less_ceiling_iff)
  moreover have "\<lceil>max_attempts cfg - (a + 1)\<rceil> = \<lceil>max_attempts cfg - a\<rceil> - 1"
    by (simp add: algebra_simps flip: ceiling_diff_one)
  ultimately show "\<And>env job lastErr w x2 w1 err. ((cfg, env, job, a + 1, Some err, sleep (300 + a * 300) w1),
        (cfg, env, job, a, lastErr, w))
      \<in> measure (\<lambda>(cfg, env, job, a, lastErr, w). nat \<lceil>max_attempts cfg - a\<rceil>)"
    by simp
qed simp

declare attempt_loop.simps [simp del]

text \<open>The outer \<^verbatim>\<open>catch\<close> once a job is claimed: a best-effort write whose failure is swallowed.\<close>

definition mark_uncaught :: "config \<Rightarrow> env \<Rightarrow> job \<Rightarrow> js_error \<Rightarrow> world \<Rightarrow> world" where
  "mark_uncaught cfg env job err w = snd (updateOne env (job_id job) (uncaught_update cfg err) w)"

text \<open>One tick of the worker, started at time \<open>now\<close>.\<close>

definition processOne :: "config \<Rightarrow> env \<Rightarrow> nat \<Rightarrow> world \<Rightarrow> world" where
  "processOne cfg env now w =
     (if busy w then w
      else (case findOneAndUpdate cfg env now (w\<lparr>busy := True\<rparr>) of
        (Inl err, w1) \<Rightarrow> w1\<lparr>busy := False\<rparr>
      | (Inr None, w1) \<Rightarrow> w1\<lparr>busy := False\<rparr>
      | (Inr (Some job), w1) \<Rightarrow>
          (case attempt_loop cfg env job (attempt job) None w1 of
             (Completed None, w2) \<Rightarrow> w2\<lparr>busy := False\<rparr>
           | (Completed (Some lastErr), w2) \<Rightarrow>
               (case updateOne env (job_id job) (failed_update cfg lastErr) w2 of
                  (None, w3) \<Rightarrow> w3\<lparr>busy := False\<rparr>
                | (Some err, w3) \<Rightarrow> (mark_uncaught cfg env job err w3)\<lparr>busy := False\<rparr>)
           | (Escaped err, w2) \<Rightarrow> (mark_uncaught cfg env job err w2)\<lparr>busy := False\<rparr>)))"

text \<open>Ticks run one after the other, at the given times.\<close>

fun run_ticks :: "config \<Rightarrow> env \<Rightarrow> nat list \<Rightarrow> world \<Rightarrow> world" where
  "run_ticks cfg env [] w = w"
| "run_ticks cfg env (t # ts) w = run_ticks cfg env ts (processOne cfg env t w)"

text \<open>
  Whether the payload of a job passes all that the worker and the typed operation of its
  type do before the provider is called: the checks, and the construction of the prompt.
\<close>

definition params_accepted :: "job \<Rightarrow> bool" where
  "params_accepted job =
     (let p = payload job;
          seed = js_or (js_and p (js_or (get_prop p ''seed'') (get_prop p ''topic'')))
                   (JStr ''untitled'');
          keywords = js_or (get_prop p ''keywords'') (JArr []);
          settings = js_or (get_prop p ''settings'') (JObj []);
          tone = js_or (get_prop settings ''tone'') (JStr ''professional'');
          article_ok = (\<lambda>n. truthy (get_prop p ''title'') \<and> is_string (get_prop p ''content'') \<and>
                          truthy (get_prop p ''content'') \<and> is_array keywords \<and>
                          keywords_listed n keywords \<and> converts (get_prop p ''title'') \<and>
                          converts seed)
      in if jtype job = ''KEYWORDS'' then is_string seed
         else if jtype job = ''ARTICLE'' then
           is_string seed \<and> is_array keywords \<and> keywords_listed 10 keywords \<and> converts tone
         else if jtype job = ''SEO'' then article_ok 10
         else if jtype job = ''META'' then article_ok 8
         else if jtype job = ''IMAGE'' then article_ok 5
         else if jtype job = ''HASHTAGS'' then article_ok 8
         else False)"

section \<open>The ticks of one instance, interleaved\<close>

text \<open>
  \<^verbatim>\<open>processOne\<close> is an async function started by a timer: it runs until its next \<^verbatim>\<open>await\<close>,
  and another tick may start before it is resumed. A tick in flight is what it will do
  when it is resumed: take the answer of its claim; call the typed operation for attempt
  \<open>a\<close>; write the success of attempt \<open>a\<close>; end the backoff after attempt \<open>a\<close> failed; write
  the exhaustion; or mark the job in the outer catch. The awaits inside a typed operation
  touch neither the flag nor the store and stay inside one step.
\<close>

datatype phase =
    Claiming nat
  | Attempting job real
  | Writing job real gen_response
  | Backoff job real js_error
  | Failing job js_error
  | Marking job js_error

text \<open>The \<^verbatim>\<open>finally\<close>: the flag is cleared and the tick is over.\<close>

definition released :: "world \<Rightarrow> world \<times> phase option" where
  "released w = (w\<lparr>busy := False\<rparr>, None)"

text \<open>The head of the \<^verbatim>\<open>for\<close> loop, and what follows the loop when it is left.\<close>

definition next_attempt ::
  "config \<Rightarrow> job \<Rightarrow> real \<Rightarrow> js_error option \<Rightarrow> world \<Rightarrow> world \<times> phase option" where
  "next_attempt cfg job a lastErr w =
     (if a < max_attempts cfg then (w, Some (Attempting job a))
      else (case lastErr of
              None \<Rightarrow> released w
            | Some e \<Rightarrow> (w, Some (Failing job e))))"

text \<open>Resuming a tick in flight: the new state, and the tick's next phase if it is not over.\<close>

fun resume :: "config \<Rightarrow> env \<Rightarrow> phase \<Rightarrow> world \<Rightarrow> world \<times> phase option" where
  "resume cfg env (Claiming now) w =
     (case findOneAndUpdate cfg env now w of
        (Inl err, w1) \<Rightarrow> released w1
      | (Inr None, w1) \<Rightarrow> released w1
      | (Inr (Some job), w1) \<Rightarrow> next_attempt cfg job (attempt job) None w1)"
| "resume cfg env (Attempting job a) w =
     (case dispatch cfg env job w of
        (Inl None, w1) \<Rightarrow>
          (w1, Some (Marking job
             (TypeError ''Cannot read properties of undefined (reading 'message')'')))
      | (Inl (Some err), w1) \<Rightarrow> (w1, Some (Backoff job a err))
      | (Inr r, w1) \<Rightarrow> (w1, Some (Writing job a r)))"
| "resume cfg env (Writing job a r) w =
     (case updateOne env (job_id job) (success_update a r) w of
        (None, w1) \<Rightarrow> released w1
      | (Some e, w1) \<Rightarrow> (w1, Some (Backoff job a e)))"
| "resume cfg env (Backoff job a err) w =
     next_attempt cfg job (a + 1) (Some err) (sleep (300 + a * 300) w)"
| "resume cfg env (Failing job e) w =
     (case updateOne env (job_id job) (failed_update cfg e) w of
        (None, w1) \<Rightarrow> released w1
      | (Some err, w1) \<Rightarrow> (w1, Some (Marking job err)))"
| "resume cfg env (Marking job err) w = released (mark_uncaught cfg env job err w)"

text \<open>
  The timer fires at a time, or the tick in flight of a given index is resumed. A tick
  that starts tests the flag and sets it in one go, before its first \<^verbatim>\<open>await\<close>.
\<close>

datatype event = Tick nat | Resume nat

fun step :: "config \<Rightarrow> env \<Rightarrow> event \<Rightarrow> world \<times> phase list \<Rightarrow> world \<times> phase list" where
  "step cfg env (Tick now) (w, ts) =
     (if busy w then (w, ts) else (w\<lparr>busy := True\<rparr>, ts @ [Claiming now]))"
| "step cfg env (Resume i) (w, ts) =
     (if i < length ts then
        (case resume cfg env (ts ! i) w of
           (w', None) \<Rightarrow> (w', take i ts @ drop (Suc i) ts)
         | (w', Some p) \<Rightarrow> (w', ts[i := p]))
      else (w, ts))"

definition run_events :: "config \<Rightarrow> env \<Rightarrow> event list \<Rightarrow> world \<times> phase list \<Rightarrow> world \<times> phase list" where
  "run_events cfg env es st = fold (step cfg env) es st"

text \<open>Resuming one tick until it is over, at most \<open>n\<close> times.\<close>

fun finish_tick :: "nat \<Rightarrow> config \<Rightarrow> env \<Rightarrow> world \<times> phase option \<Rightarrow> world option" where
  "finish_tick n cfg env (w, None) = Some w"
| "finish_tick 0 cfg env (w, Some p) = None"
| "finish_tick (Suc n) cfg env (w, Some p) = finish_tick n cfg env (resume cfg env p w)"

section \<open>Notions used in the statements\<close>

text \<open>What the adapter leaves alone: the flag, the store and the worker's store calls.\<close>

definition same_frame :: "world \<Rightarrow> world \<Rightarrow> bool" where
  "same_frame w w' = (busy w' = busy w \<and> store w' = store w \<and> scalls w' = scalls w)"

text \<open>No stored attempt counter exceeds the configured maximum.\<close>

definition attempts_bounded :: "config \<Rightarrow> store \<Rightarrow> bool" where
  "attempts_bounded cfg s = (\<forall>j \<in> set s. attempt j \<le> max_attempts cfg)"

text \<open>A number that is a count (0, 1, 2, ...), and a store whose attempt counters all are.\<close>

definition whole :: "real \<Rightarrow> bool" where
  "whole x = (x = real (nat \<lfloor>x\<rfloor>))"

definition counters_whole :: "store \<Rightarrow> bool" where
  "counters_whole s = (\<forall>j \<in> set s. whole (attempt j))"

definition counters_ok :: "config \<Rightarrow> store \<Rightarrow> bool" where
  "counters_ok cfg s = (counters_whole s \<and> attempts_bounded cfg s)"

text \<open>A provider that throws a retriable error at every call.\<close>

definition always_transient :: "env \<Rightarrow> bool" where
  "always_transient env = (\<forall>n. \<exists>e. provider env n = Rejects e \<and> isRetriableError (Some e))"

text \<open>
  The number of attempts that the worker's loop makes from index \<open>a\<close> on when none
  succeeds: the indices \<open>a\<close>, \<open>a + 1\<close>, ... below the ceiling.
\<close>

definition attempts_left :: "config \<Rightarrow> real \<Rightarrow> nat" where
  "attempts_left cfg a = nat \<lceil>max_attempts cfg - a\<rceil>"

text \<open>
  The delays of \<^verbatim>\<open>withRetry\<close> from iteration \<open>i\<close> on when every call fails with a retriable
  error and the ceiling of \<^verbatim>\<open>withRetry\<close> is a count, and the delays of the worker's loop from
  attempt \<open>a\<close> on: those of the adapter followed by the worker's own backoff, at each
  attempt.
\<close>

definition retry_sleeps :: "config \<Rightarrow> nat \<Rightarrow> real list" where
  "retry_sleeps cfg i =
     map (\<lambda>k. retry_base_ms cfg * 2 ^ k) [i..<nat \<lceil>retry_attempts cfg\<rceil> - 1]"

definition attempt_sleeps :: "config \<Rightarrow> real \<Rightarrow> real list" where
  "attempt_sleeps cfg a =
     concat (map (\<lambda>k. retry_sleeps cfg 0 @ [300 + (a + real k) * 300])
               [0..<attempts_left cfg a])"

text \<open>
  A job of one of the four article types whose payload has no truthy \<^verbatim>\<open>title\<close> or no truthy
  \<^verbatim>\<open>content\<close>, the error the worker throws for it, and the worker's backoff delays from
  attempt \<open>a\<close> on.
\<close>

definition lacks_article :: "job \<Rightarrow> bool" where
  "lacks_article job =
     (jtype job \<in> {''SEO'', ''META'', ''IMAGE'', ''HASHTAGS''} \<and>
      (\<not> truthy (get_prop (payload job) ''title'') \<or> \<not> truthy (get_prop (payload job) ''content'')))"

definition precondition_error :: "job \<Rightarrow> js_error" where
  "precondition_error job = Error (jtype job @ '' job requires title and content in payload'')"

definition backoffs :: "config \<Rightarrow> real \<Rightarrow> real list" where
  "backoffs cfg a = map (\<lambda>k. 300 + (a + real k) * 300) [0..<attempts_left cfg a]"

text \<open>
  A number of resumptions that ends a tick on a store: three for each attempt that the
  loop can make on a job of the store, and three more.
\<close>

definition tick_steps :: "config \<Rightarrow> store \<Rightarrow> nat" where
  "tick_steps cfg s = 3 * foldr (\<lambda>j. max (attempts_left cfg (attempt j))) s 0 + 3"

text \<open>
  At most one tick is in flight, and the flag is set exactly when one is; and the part of
  \<^verbatim>\<open>processOne\<close> that follows the retry loop.
\<close>

definition single_flight_inv :: "world \<times> phase list \<Rightarrow> bool" where
  "single_flight_inv st = (length (snd st) \<le> 1 \<and> (busy (fst st) \<longleftrightarrow> snd st \<noteq> []))"

definition after_loop :: "config \<Rightarrow> env \<Rightarrow> job \<Rightarrow> loop_exit \<times> world \<Rightarrow> world" where
  "after_loop cfg env job xw =
     (case xw of
        (Completed None, w2) \<Rightarrow> w2\<lparr>busy := False\<rparr>
      | (Completed (Some lastErr), w2) \<Rightarrow>
          (case updateOne env (job_id job) (failed_update cfg lastErr) w2 of
             (None, w3) \<Rightarrow> w3\<lparr>busy := False\<rparr>
           | (Some err, w3) \<Rightarrow> (mark_uncaught cfg env job err w3)\<lparr>busy := False\<rparr>)
      | (Escaped err, w2) \<Rightarrow> (mark_uncaught cfg env job err w2)\<lparr>busy := False\<rparr>)"

section \<open>Example documents\<close>

definition job0 :: job where
  "job0 = \<lparr>job_id = ''64b000000000000000000001'', userId = ''64a000000000000000000001'',
     jtype = ''KEYWORDS'', status = PENDING, payload = JObj [(''seed'', JStr ''electric bikes'')],
     result = JUndefined, error = JUndefined, model = JUndefined, tokensUsed = 0, attempt = 0,
     claimedBy = None, claimedAt = None, createdAt = 3000\<rparr>"

definition job_done :: job where
  "job_done = job0\<lparr>job_id := ''64b000000000000000000002'', status := SUCCEEDED,
     result := JNull, model := JStr ''gemini-2.0-flash-exp'', attempt := 1,
     claimedBy := Some ''worker-1'', claimedAt := Some 5000, createdAt := 1000\<rparr>"

definition job_seo :: job where
  "job_seo = job0\<lparr>job_id := ''64b000000000000000000003'', jtype := ''SEO'',
     payload := JObj [(''topic'', JStr ''electric bikes'')], createdAt := 2000\<rparr>"

text \<open>A provider that is always unavailable, a store that always answers.\<close>

definition unavailable :: js_error where
  "unavailable = (Error ''503 Service Unavailable'')\<lparr>e_status := JNum (Finite 503)\<rparr>"

definition env_unavailable :: env where
  "env_unavailable =
     \<lparr>provider = (\<lambda>n. Rejects unavailable), store_fails = (\<lambda>n. None),
      json_parse = (\<lambda>s. Inl ''Unexpected token''), finish = (\<lambda>kind params data. Inr data)\<rparr>"

definition idle :: "store \<Rightarrow> world" where
  "idle s = \<lparr>busy = False, store = s, pcalls = 0, gcalls = 0, scalls = 0, slept = []\<rparr>"

text \<open>
  A table that agrees with \<^verbatim>\<open>JSON.parse\<close> on the strings of the examples: the empty object,
  and strings that are not JSON.
\<close>

definition parse_sample :: "string \<Rightarrow> string + jsval" where
  "parse_sample s = (if s = ''{}'' then Inr (JObj []) else Inl (''Unexpected token in JSON: '' @ s))"

text \<open>A provider that answers with a fenced empty object, and the parameters of an SEO review.\<close>

definition env_fenced :: env where
  "env_fenced =
     \<lparr>provider = (\<lambda>n. Resolves ''```json {} ```'' (Some 42)), store_fails = (\<lambda>n. None),
      json_parse = parse_sample, finish = (\<lambda>kind params data. Inr data)\<rparr>"

definition seo_params :: jsval where
  "seo_params =
     JObj [(''article'', JObj [(''title'', JStr ''Bikes''), (''content'', JStr ''<p>Electric bikes</p>'')]),
           (''keywords'', JArr []), (''topic'', JStr ''bikes''), (''locale'', JStr ''en'')]"

text \<open>
  A ceiling of the worker that is no whole number, and a provider that refuses its first
  two calls with an error that is not retriable and answers from the third call on.
\<close>

definition config_fractional :: config where
  "config_fractional = default_config\<lparr>max_attempts := 5 / 2\<rparr>"

definition bad_request :: js_error where
  "bad_request = (Error ''400 Bad Request'')\<lparr>e_status := JNum (Finite 400)\<rparr>"

definition env_flaky :: env where
  "env_flaky =
     \<lparr>provider = (\<lambda>n. if n < 2 then Rejects bad_request else Resolves ''{}'' (Some 42)),
      store_fails = (\<lambda>n. None), json_parse = parse_sample,
      finish = (\<lambda>kind params data. Inr data)\<rparr>"

section \<open>Properties of the claim step\<close>

lemma claim_None: "claimOldestPending inst now s = (None, s') \<Longrightarrow> s' = s"
  by (auto simp: claimOldestPending_def Let_def split: list.splits)

lemma sort_key_hd_min:
  assumes "sort_key f xs = y # ys"
  shows "y \<in> set xs \<and> (\<forall>x \<in> set xs. f y \<le> f x)"
proof -
  have s: "sorted (map f (y # ys))" using sorted_sort_key [of f xs] assms by simp
  have e: "set (y # ys) = set xs" using set_sort [of f xs] assms by simp
  from s have "\<forall>x \<in> set (y # ys). f y \<le> f x" by auto
  with e show ?thesis by auto
qed

lemma claim_Some:
  assumes "claimOldestPending inst now s = (Some j', s')"
  shows "\<exists>j \<in> set s. claimable inst j \<and> (\<forall>k \<in> set s. claimable inst k \<longrightarrow> createdAt j \<le> createdAt k)
           \<and> j' = claim_update inst now j \<and> s' = replace_job j' s"
proof -
  from assms obtain j rest where sk: "sort_key createdAt (filter (claimable inst) s) = j # rest"
    and j': "j' = claim_update inst now j" and s': "s' = replace_job j' s"
    by (auto simp: claimOldestPending_def Let_def split: list.splits)
  from sort_key_hd_min [OF sk] j' s' show ?thesis by auto
qed

lemma claim_update_fields [simp]:
  "status (claim_update inst now j) = RUNNING"
  "claimedBy (claim_update inst now j) = Some inst"
  "job_id (claim_update inst now j) = job_id j"
  "createdAt (claim_update inst now j) = createdAt j"
  by (simp_all add: claim_update_def)

lemma replace_job_mem: "j \<in> set s \<Longrightarrow> job_id j' = job_id j \<Longrightarrow> j' \<in> set (replace_job j' s)"
  by (force simp: replace_job_def)

lemma pending_ids_replace:
  "status j' \<noteq> PENDING \<Longrightarrow> pending_ids (replace_job j' s) = pending_ids s - {job_id j'}"
  by (auto simp: pending_ids_def replace_job_def image_iff)

lemma replace_job_keeps:
  "k \<in> set s \<Longrightarrow> job_id k \<noteq> job_id j' \<Longrightarrow> k \<in> set (replace_job j' s)"
  by (force simp: replace_job_def)

lemma run_claims_inv:
  "run_claims cs s = (rs, s') \<Longrightarrow>
     distinct (map job_id (claimed rs)) \<and>
     job_id ` set (claimed rs) \<subseteq> pending_ids s \<and>
     pending_ids s' = pending_ids s - job_id ` set (claimed rs) \<and>
     (\<forall>k \<in> set s. job_id k \<notin> pending_ids s \<longrightarrow> k \<in> set s') \<and>
     (\<forall>(inst, r) \<in> set rs. \<forall>j. r = Some j \<longrightarrow> status j = RUNNING \<and> claimedBy j = Some inst \<and> j \<in> set s')"
proof (induction cs arbitrary: s rs s')
  case Nil
  then show ?case by simp
next
  case (Cons c cs)
  obtain inst now where c: "c = (inst, now)" by (cases c)
  obtain r s1 where r: "claimOldestPending inst now s = (r, s1)" by (cases "claimOldestPending inst now s")
  obtain rs1 s2 where rc: "run_claims cs s1 = (rs1, s2)" by (cases "run_claims cs s1")
  from Cons.prems c r rc have rs: "rs = (inst, r) # rs1" and s': "s' = s2" by auto
  note IH = Cons.IH [OF rc]
  show ?case
  proof (cases r)
    case None
    with r have "s1 = s" by (simp add: claim_None)
    with IH None rs s' show ?thesis by auto
  next
    case (Some j')
    with r claim_Some obtain j where j: "j \<in> set s" "claimable inst j"
      "j' = claim_update inst now j" "s1 = replace_job j' s" by blast
    have st: "status j' \<noteq> PENDING" using j by simp
    have p1: "pending_ids s1 = pending_ids s - {job_id j'}"
      using pending_ids_replace [OF st] j by simp
    have jp: "job_id j' \<in> pending_ids s"
      using j by (auto simp: pending_ids_def claimable_def image_iff)
    have j'in: "j' \<in> set s1" using j replace_job_mem [of j s j'] by simp
    have j'notp: "job_id j' \<notin> pending_ids s1" using p1 by simp
    have keep: "\<forall>k \<in> set s. job_id k \<notin> pending_ids s \<longrightarrow> k \<in> set s1"
    proof (intro ballI impI)
      fix k assume k: "k \<in> set s" "job_id k \<notin> pending_ids s"
      with jp have "job_id k \<noteq> job_id j'" by auto
      with k show "k \<in> set s1" using j replace_job_keeps by blast
    qed
    have keep2: "\<forall>k \<in> set s. job_id k \<notin> pending_ids s \<longrightarrow> job_id k \<notin> pending_ids s1"
      using p1 by auto
    from IH p1 jp j'in j'notp keep keep2 Some rs s' j show ?thesis
      by (auto simp: image_iff)
  qed
qed


lemma card_pending_le: "card (pending_ids s) \<le> length (filter (\<lambda>k. status k = PENDING) s)"
proof -
  have "pending_ids s = job_id ` set (filter (\<lambda>k. status k = PENDING) s)"
    by (auto simp: pending_ids_def)
  then have "card (pending_ids s) \<le> card (set (filter (\<lambda>k. status k = PENDING) s))"
    by (simp add: card_image_le)
  also have "\<dots> \<le> length (filter (\<lambda>k. status k = PENDING) s)" by (rule card_length)
  finally show ?thesis .
qed

lemma claim_Some_sorted:
  assumes "claimOldestPending inst now s = (Some j', s')"
  shows "\<exists>j rest. sort_key createdAt (filter (claimable inst) s) = j # rest
           \<and> j' = claim_update inst now j \<and> s' = replace_job j' s"
  using assms by (auto simp: claimOldestPending_def Let_def split: list.splits)

lemma claim_None_empty:
  assumes "claimOldestPending inst now s = (None, s')"
  shows "filter (claimable inst) s = []"
proof -
  from assms have "sort_key createdAt (filter (claimable inst) s) = []"
    by (auto simp: claimOldestPending_def Let_def split: list.splits)
  then have "length (filter (claimable inst) s) = 0"
    using length_sort [of createdAt "filter (claimable inst) s"] by simp
  then show ?thesis by simp
qed

lemma map_sort_key: "map f (sort_key f xs) = sort (map f xs)"
  by (rule properties_for_sort [symmetric]) simp_all

lemma job_ids_replace [simp]: "job_id j' = i \<Longrightarrow> map job_id (replace_job j' s) = map job_id s"
  by (induction s) (auto simp: replace_job_def)

lemma filter_replace:
  "\<not> P j' \<Longrightarrow> filter P (replace_job j' s) = filter (\<lambda>k. P k \<and> job_id k \<noteq> job_id j') s"
  by (induction s) (auto simp: replace_job_def)

lemma filter_same_id:
  "distinct (map job_id s) \<Longrightarrow> j \<in> set s \<Longrightarrow> P j \<Longrightarrow>
     filter (\<lambda>k. P k \<and> job_id k = job_id j) s = [j]"
proof (induction s)
  case Nil
  then show ?case by simp
next
  case (Cons a s)
  show ?case
  proof (cases "a = j")
    case True
    with Cons.prems have "\<forall>k \<in> set s. job_id k \<noteq> job_id j" by (auto simp: image_iff)
    then have "filter (\<lambda>k. P k \<and> job_id k = job_id j) s = []" by (auto simp: filter_empty_conv)
    with True Cons.prems show ?thesis by simp
  next
    case False
    with Cons.prems have "j \<in> set s" "job_id a \<noteq> job_id j" by (auto simp: image_iff)
    with Cons show ?thesis by simp
  qed
qed

lemma mset_candidates_after:
  assumes "wf_store s" "j \<in> set s" "claimable inst j"
  shows "mset (filter (claimable inst) (replace_job (claim_update inst now j) s)) + {#j#}
           = mset (filter (claimable inst) s)"
proof -
  let ?j' = "claim_update inst now j"
  have n: "\<not> claimable inst ?j'" by (simp add: claimable_def)
  have "mset (filter (claimable inst) s) =
          mset (filter (\<lambda>k. claimable inst k \<and> job_id k \<noteq> job_id j) s)
        + mset (filter (\<lambda>k. claimable inst k \<and> job_id k = job_id j) s)"
    by (induction s) auto
  also have "filter (\<lambda>k. claimable inst k \<and> job_id k = job_id j) s = [j]"
    using assms filter_same_id [of s j "claimable inst"] by (simp add: wf_store_def)
  finally show ?thesis
    using n filter_replace [of "claimable inst" ?j' s] by simp
qed

lemma run_claims_order:
  "run_claims (map (\<lambda>t. (inst, t)) ts) s = (rs, s') \<Longrightarrow> wf_store s \<Longrightarrow>
     map createdAt (claimed rs) = take (length ts) (sort (map createdAt (filter (claimable inst) s)))"
proof (induction ts arbitrary: s rs s')
  case Nil
  then show ?case by simp
next
  case (Cons t ts)
  obtain r s1 where r: "claimOldestPending inst t s = (r, s1)" by (cases "claimOldestPending inst t s")
  obtain rs1 s2 where rc: "run_claims (map (\<lambda>t. (inst, t)) ts) s1 = (rs1, s2)"
    by (cases "run_claims (map (\<lambda>t. (inst, t)) ts) s1")
  from Cons.prems r rc have rs: "rs = (inst, r) # rs1" by auto
  show ?case
  proof (cases r)
    case None
    with r have e: "s1 = s" "filter (claimable inst) s = []"
      using claim_None claim_None_empty by blast+
    with Cons.IH [OF rc] Cons.prems(2) None rs show ?thesis by simp
  next
    case (Some j')
    with r claim_Some_sorted obtain j rest where
      sk: "sort_key createdAt (filter (claimable inst) s) = j # rest"
      and j': "j' = claim_update inst t j" and s1: "s1 = replace_job j' s" by blast
    have "j \<in> set (sort_key createdAt (filter (claimable inst) s))" using sk by simp
    then have jin: "j \<in> set s" "claimable inst j" by auto
    have wf1: "wf_store s1" using Cons.prems(2) s1 by (simp add: wf_store_def)
    have srt: "sort (map createdAt (filter (claimable inst) s)) = createdAt j # map createdAt rest"
      using sk map_sort_key [of createdAt "filter (claimable inst) s"] by simp
    have "mset (filter (claimable inst) s1) + {#j#} = mset (j # rest)"
      using mset_candidates_after [OF Cons.prems(2) jin, of t] j' s1
        mset_sort [of createdAt "filter (claimable inst) s"] sk by simp
    then have m: "mset (filter (claimable inst) s1) = mset rest" by simp
    have "sorted (map createdAt (j # rest))"
      using sorted_sort_key [of createdAt "filter (claimable inst) s"] sk by simp
    then have "sorted (map createdAt rest)" by simp
    moreover have "mset (map createdAt rest) = mset (map createdAt (filter (claimable inst) s1))"
      using m by (metis mset_map)
    ultimately have "sort (map createdAt (filter (claimable inst) s1)) = map createdAt rest"
      using properties_for_sort [of "map createdAt rest" "map createdAt (filter (claimable inst) s1)"]
      by simp
    with Cons.IH [OF rc wf1] srt Some rs j' show ?thesis by simp
  qed
qed

text \<open>
  C1 (at-most-one claimant). However many claims are issued against a store, by whatever
  instances, no document is returned twice: the identifiers of the claimed documents are
  distinct, and there are at most as many successful claims as PENDING documents, so of the
  claims racing for one PENDING job at most one succeeds and the others find no match. A
  successful claim returns the document with status RUNNING and \<^verbatim>\<open>claimedBy\<close> equal to the
  claiming instance, and that document is still in the store, unchanged, after all the
  later claims: no other instance takes over a RUNNING job.
\<close>

theorem claim_exclusive:
  assumes "run_claims cs s = (rs, s')"
  shows "distinct (map job_id (claimed rs)) \<and>
         length (claimed rs) \<le> length (filter (\<lambda>k. status k = PENDING) s) \<and>
         (\<forall>(inst, r) \<in> set rs. \<forall>j. r = Some j \<longrightarrow>
            status j = RUNNING \<and> claimedBy j = Some inst \<and> j \<in> set s')"
proof -
  note inv = run_claims_inv [OF assms]
  from inv have d: "distinct (map job_id (claimed rs))" by blast
  from inv have sub: "job_id ` set (claimed rs) \<subseteq> pending_ids s" by blast
  have "length (claimed rs) = card (set (map job_id (claimed rs)))"
    using d distinct_card [of "map job_id (claimed rs)"] by simp
  also have "\<dots> \<le> card (pending_ids s)"
    using sub by (auto intro: card_mono simp: pending_ids_def)
  also note card_pending_le
  finally have l: "length (claimed rs) \<le> length (filter (\<lambda>k. status k = PENDING) s)" .
  from inv d l show ?thesis by blast
qed

theorem claim_exclusive_witness:
  "run_claims [(''worker-1'', 5000), (''worker-2'', 5001)] [job0] =
     ([(''worker-1'', Some (claim_update ''worker-1'' 5000 job0)), (''worker-2'', None)],
      [claim_update ''worker-1'' 5000 job0]) \<and>
   length (claimed [(''worker-1'', Some (claim_update ''worker-1'' 5000 job0)), (''worker-2'', None)]) \<le> 1 \<and>
   claim_update ''worker-1'' 5000 job0 \<in> set [claim_update ''worker-1'' 5000 job0]"
proof -
  have h: "run_claims [(''worker-1'', 5000), (''worker-2'', 5001)] [job0] =
     ([(''worker-1'', Some (claim_update ''worker-1'' 5000 job0)), (''worker-2'', None)],
      [claim_update ''worker-1'' 5000 job0])"
    by (simp add: claimOldestPending_def claimable_def job0_def allowed_types_def
        claim_update_def replace_job_def Let_def)
  show ?thesis using h claim_exclusive [OF h] by (simp add: job0_def)
qed


text \<open>
  C5 (claim ordering). A claim finds no match exactly when no document passes the filter;
  otherwise it returns the update of a document that passes the filter (status PENDING,
  type among the six, \<^verbatim>\<open>claimedBy\<close> missing or the instance's own) and whose \<^verbatim>\<open>createdAt\<close> is
  the least among those that pass it. Successive claims of one instance return the
  documents in creation order: their \<^verbatim>\<open>createdAt\<close> values are the first values of the sorted
  list of the \<^verbatim>\<open>createdAt\<close> values of the claimable documents.
\<close>

theorem claim_oldest_first:
  assumes "wf_store s"
  shows "(fst (claimOldestPending inst now s) = None \<longleftrightarrow> filter (claimable inst) s = []) \<and>
         (\<forall>j'. fst (claimOldestPending inst now s) = Some j' \<longrightarrow>
            (\<exists>j \<in> set s. claimable inst j \<and>
               (\<forall>k \<in> set s. claimable inst k \<longrightarrow> createdAt j \<le> createdAt k) \<and>
               j' = claim_update inst now j)) \<and>
         (\<forall>rs s'. run_claims (map (\<lambda>t. (inst, t)) ts) s = (rs, s') \<longrightarrow>
            map createdAt (claimed rs) =
              take (length ts) (sort (map createdAt (filter (claimable inst) s))))"
proof -
  obtain r s1 where r: "claimOldestPending inst now s = (r, s1)"
    by (cases "claimOldestPending inst now s")
  have a: "fst (claimOldestPending inst now s) = None \<longleftrightarrow> filter (claimable inst) s = []"
  proof
    assume "fst (claimOldestPending inst now s) = None"
    with r show "filter (claimable inst) s = []" using claim_None_empty by simp
  next
    assume "filter (claimable inst) s = []"
    then show "fst (claimOldestPending inst now s) = None"
      by (simp add: claimOldestPending_def)
  qed
  have b: "\<forall>j'. fst (claimOldestPending inst now s) = Some j' \<longrightarrow>
            (\<exists>j \<in> set s. claimable inst j \<and>
               (\<forall>k \<in> set s. claimable inst k \<longrightarrow> createdAt j \<le> createdAt k) \<and>
               j' = claim_update inst now j)"
    using r claim_Some [of inst now s _ s1] by auto
  have c: "\<forall>rs s'. run_claims (map (\<lambda>t. (inst, t)) ts) s = (rs, s') \<longrightarrow>
            map createdAt (claimed rs) =
              take (length ts) (sort (map createdAt (filter (claimable inst) s)))"
    using assms run_claims_order by blast
  from a b c show ?thesis by blast
qed

theorem claim_oldest_first_witness:
  "wf_store [job0, job_done, job_seo] \<and>
   map createdAt (claimed (fst (run_claims (map (\<lambda>t. (''worker-1'', t)) [5000, 6000, 7000])
      [job0, job_done, job_seo]))) = [2000, 3000]"
proof -
  have h: "wf_store [job0, job_done, job_seo]"
    by (simp add: wf_store_def job0_def job_done_def job_seo_def)
  have e: "take (length [5000, 6000, 7000 :: nat])
      (sort (map createdAt (filter (claimable ''worker-1'') [job0, job_done, job_seo]))) = [2000, 3000]"
    by (simp add: claimable_def allowed_types_def job0_def job_done_def job_seo_def)
  have p: "run_claims (map (\<lambda>t. (''worker-1'', t)) [5000, 6000, 7000]) [job0, job_done, job_seo] =
     (fst (run_claims (map (\<lambda>t. (''worker-1'', t)) [5000, 6000, 7000]) [job0, job_done, job_seo]),
      snd (run_claims (map (\<lambda>t. (''worker-1'', t)) [5000, 6000, 7000]) [job0, job_done, job_seo]))"
    by simp
  from claim_oldest_first [OF h, of "''worker-1''" 0 "[5000, 6000, 7000]"] p e
  have "map createdAt (claimed (fst (run_claims (map (\<lambda>t. (''worker-1'', t)) [5000, 6000, 7000])
      [job0, job_done, job_seo]))) = [2000, 3000]"
    by metis
  with h show ?thesis by simp
qed

section \<open>Properties of the job query API\<close>

lemma findById_Some: "findById s x = Some j \<Longrightarrow> j \<in> set s \<and> job_id j = toLowerCase x"
  by (auto simp: findById_def find_Some_iff)


lemma findById_remove:
  assumes "wf_store s" "findById s x = Some j"
  shows "findById (removeAll j s) x = None"
proof -
  from assms(2) have j: "j \<in> set s" "job_id j = toLowerCase x" by (auto dest: findById_Some)
  have "\<forall>k \<in> set s. job_id k = job_id j \<longrightarrow> k = j"
    using assms(1) j(1) by (auto simp: wf_store_def distinct_map inj_on_def)
  then have "\<forall>k \<in> set (removeAll j s). job_id k \<noteq> toLowerCase x" using j(2) by auto
  then show ?thesis by (auto simp: findById_def find_None_iff)
qed


text \<open>
  C8 (ownership noninterference). When the identifier \<open>x\<close> resolves to a job that the
  requesting user \<open>b\<close> does not own, and \<open>y\<close> is a well-formed identifier of no job, the
  answer to \<open>b\<close> for \<open>x\<close> is the answer for \<open>y\<close>, and it is the answer \<open>b\<close> would get if
  the job were not in the store at all; with the store up and \<open>b\<close> authenticated it is
  404 "Job not found". A 200 answer carries the view of a job of the store owned by the
  requesting user.
\<close>

theorem ownership_scoping:
  assumes "wf_store s" and "findById s x = Some j" and "userId j \<noteq> b"
    and "idSchema x" and "idSchema y" and "findById s y = None"
  shows "get_job up s (Some b) x = get_job up s (Some b) y \<and>
         get_job up s (Some b) x = get_job up (removeAll j s) (Some b) x \<and>
         (up \<and> b \<noteq> [] \<longrightarrow> get_job up s (Some b) x = Json 404 (ErrorBody ''Job not found'')) \<and>
         (\<forall>u z v. get_job up s u z = Json 200 (JobBody v) \<longrightarrow>
            (\<exists>k \<in> set s. u = Some (userId k) \<and> v = job_response k))"
proof -
  have r: "findById (removeAll j s) x = None" using assms(1,2) by (rule findById_remove)
  have a: "get_job up s (Some b) x = get_job up s (Some b) y"
    using assms by (simp add: get_job_def)
  have b: "get_job up s (Some b) x = get_job up (removeAll j s) (Some b) x"
    using assms r by (simp add: get_job_def)
  have c: "up \<and> b \<noteq> [] \<longrightarrow> get_job up s (Some b) x = Json 404 (ErrorBody ''Job not found'')"
    using assms by (simp add: get_job_def)
  have d: "\<forall>u z v. get_job up s u z = Json 200 (JobBody v) \<longrightarrow>
            (\<exists>k \<in> set s. u = Some (userId k) \<and> v = job_response k)"
    by (auto simp: get_job_def split: option.splits if_splits dest: findById_Some)
  from a b c d show ?thesis by blast
qed

theorem ownership_scoping_witness:
  "wf_store [job0, job_done] \<and> findById [job0, job_done] ''64B000000000000000000002'' = Some job_done \<and>
   userId job_done \<noteq> ''64a000000000000000000009'' \<and>
   findById [job0, job_done] ''64b000000000000000000003'' = None \<and>
   get_job True [job0, job_done] (Some ''64a000000000000000000009'') ''64B000000000000000000002''
     = Json 404 (ErrorBody ''Job not found'') \<and>
   get_job True [job0, job_done] (Some ''64a000000000000000000009'') ''64b000000000000000000003''
     = Json 404 (ErrorBody ''Job not found'')"
proof -
  have h1: "wf_store [job0, job_done]" by (simp add: wf_store_def job0_def job_done_def)
  have h2: "findById [job0, job_done] ''64B000000000000000000002'' = Some job_done"
    by (simp add: findById_def toLowerCase_def lower_char_def job0_def job_done_def)
  have h3: "userId job_done \<noteq> ''64a000000000000000000009''" by (simp add: job0_def job_done_def)
  have h4: "idSchema ''64B000000000000000000002''" by (simp add: idSchema_def is_hex_digit_def)
  have h5: "idSchema ''64b000000000000000000003''" by (simp add: idSchema_def is_hex_digit_def)
  have h6: "findById [job0, job_done] ''64b000000000000000000003'' = None"
    by (simp add: findById_def toLowerCase_def lower_char_def job0_def job_done_def)
  note t = ownership_scoping [OF h1 h2 h3 h4 h5 h6, of True]
  from t have e: "get_job True [job0, job_done] (Some ''64a000000000000000000009'')
      ''64B000000000000000000002'' = get_job True [job0, job_done]
      (Some ''64a000000000000000000009'') ''64b000000000000000000003''"
    by (rule conjunct1)
  have nb: "True \<and> ''64a000000000000000000009'' \<noteq> []" by simp
  from t nb have c: "get_job True [job0, job_done] (Some ''64a000000000000000000009'')
      ''64B000000000000000000002'' = Json 404 (ErrorBody ''Job not found'')"
    by blast
  from h1 h2 h3 h6 e c show ?thesis by simp
qed


text \<open>
  C10 (view projection). The 200 answer of \<^verbatim>\<open>GET /jobs/:id\<close> to the owner leaves out \<^verbatim>\<open>tokensUsed\<close>
  when the stored value is 0 and carries it otherwise; it leaves out \<^verbatim>\<open>model\<close> and \<^verbatim>\<open>error\<close> when
  they are falsy; it carries \<^verbatim>\<open>result\<close> whenever it is not \<^verbatim>\<open>undefined\<close>, also when it is null.
\<close>

theorem view_projection:
  assumes "idSchema x" and "findById s x = Some j" and "userId j = u" and "u \<noteq> []"
  shows "\<exists>v. get_job True s (Some u) x = Json 200 (JobBody v) \<and>
           (tokensUsed j = 0 \<longrightarrow> v_tokensUsed v = None) \<and>
           (tokensUsed j \<noteq> 0 \<longrightarrow> v_tokensUsed v = Some (tokensUsed j)) \<and>
           (\<not> truthy (model j) \<longrightarrow> v_model v = None) \<and>
           (truthy (model j) \<longrightarrow> v_model v = Some (model j)) \<and>
           (\<not> truthy (error j) \<longrightarrow> v_error v = None) \<and>
           (truthy (error j) \<longrightarrow> v_error v = Some (error j)) \<and>
           (result j = JUndefined \<longrightarrow> v_result v = None) \<and>
           (result j \<noteq> JUndefined \<longrightarrow> v_result v = Some (result j))"
  using assms by (simp add: get_job_def job_response_def)

theorem view_projection_witness:
  "idSchema ''64b000000000000000000002'' \<and>
   findById [job0, job_done] ''64b000000000000000000002'' = Some job_done \<and>
   tokensUsed job_done = 0 \<and> result job_done = JNull \<and>
   (\<exists>v. get_job True [job0, job_done] (Some ''64a000000000000000000001'') ''64b000000000000000000002''
          = Json 200 (JobBody v) \<and> v_tokensUsed v = None \<and> v_error v = None \<and>
          v_result v = Some JNull \<and> v_model v = Some (JStr ''gemini-2.0-flash-exp''))"
proof -
  have h1: "idSchema ''64b000000000000000000002''" by (simp add: idSchema_def is_hex_digit_def)
  have h2: "findById [job0, job_done] ''64b000000000000000000002'' = Some job_done"
    by (simp add: findById_def toLowerCase_def lower_char_def job0_def job_done_def)
  have h3: "userId job_done = ''64a000000000000000000001''" by (simp add: job0_def job_done_def)
  have h4: "''64a000000000000000000001'' \<noteq> []" by simp
  have f: "tokensUsed job_done = 0" "result job_done = JNull" "error job_done = JUndefined"
    "model job_done = JStr ''gemini-2.0-flash-exp''"
    by (simp_all add: job0_def job_done_def)
  from view_projection [OF h1 h2 h3 h4] obtain v where
    v: "get_job True [job0, job_done] (Some ''64a000000000000000000001'') ''64b000000000000000000002''
          = Json 200 (JobBody v)"
      "v_tokensUsed v = None" "v_error v = None" "v_result v = Some JNull"
      "v_model v = Some (JStr ''gemini-2.0-flash-exp'')"
    using f by auto
  with h1 h2 f show ?thesis by blast
qed

section \<open>Properties of the provider adapter\<close>


lemma same_frame_refl [simp]: "same_frame w w"
  by (simp add: same_frame_def)

lemma same_frame_updates [simp]:
  "same_frame w (w'\<lparr>pcalls := n\<rparr>) = same_frame w w'"
  "same_frame w (w'\<lparr>gcalls := n\<rparr>) = same_frame w w'"
  "same_frame w (w'\<lparr>slept := l\<rparr>) = same_frame w w'"
  "same_frame w (sleep ms w') = same_frame w w'"
  "same_frame w (entered w') = same_frame w w'"
  "same_frame (entered w) w' = same_frame w w'"
  "same_frame (sleep ms w) w' = same_frame w w'"
  by (simp_all add: same_frame_def sleep_def entered_def)

lemma withRetry_frame:
  "withRetry cfg env i l w = (r, w') \<Longrightarrow> same_frame w w' \<and> gcalls w' = gcalls w"
proof (induction cfg env i l w arbitrary: r w' rule: withRetry.induct)
  case (1 cfg env i lastErr w)
  from "1.prems" show ?case
    by (subst (asm) withRetry.simps)
       (auto split: if_splits provider_outcome.splits dest!: "1.IH" simp: sleep_def same_frame_def)
qed

lemma generateText_frame:
  "generateText cfg env w = (r, w') \<Longrightarrow> same_frame w w' \<and> gcalls w' = gcalls w"
  by (auto simp: generateText_def split: if_splits dest: withRetry_frame)

lemma call_and_parse_frame:
  "call_and_parse cfg env nm w = (r, w') \<Longrightarrow> same_frame w w' \<and> gcalls w' = gcalls w"
  by (auto simp: call_and_parse_def split: prod.splits sum.splits dest: generateText_frame)

lemma typed_frames:
  "generateKeywords cfg env ps w = (r, w') \<Longrightarrow> same_frame w w'"
  "generateArticle cfg env ps w = (r, w') \<Longrightarrow> same_frame w w'"
  "generateSEOReview cfg env ps w = (r, w') \<Longrightarrow> same_frame w w'"
  "titled_operation n kind name cfg env ps w = (r, w') \<Longrightarrow> same_frame w w'"
  by (auto simp: generateKeywords_def generateArticle_def generateSEOReview_def
      titled_operation_def Let_def split: if_splits dest!: call_and_parse_frame)

lemma dispatch_frame: "dispatch cfg env job w = (r, w') \<Longrightarrow> same_frame w w'"
  unfolding dispatch_def Let_def generateMeta_def generateImage_def generateHashtags_def
  by (auto split: if_splits dest: typed_frames)


subsection \<open>Parsing\<close>

lemma dropWhile_hd: "dropWhile P xs = y # ys \<Longrightarrow> \<not> P y"
  using hd_dropWhile [of P xs] by auto

lemma json_match_Some:
  assumes "json_match text = Some s"
  shows "\<exists>pre mid post. text = pre @ s @ post \<and> s = CHR ''{'' # mid @ [CHR ''}''] \<and>
           CHR ''{'' \<notin> set pre \<and> CHR ''}'' \<notin> set post"
proof -
  from assms obtain b after where d: "dropWhile (\<lambda>c. c \<noteq> CHR ''{'') text = b # after"
    by (auto simp: json_match_def split: list.splits)
  then have b: "b = CHR ''{''" using dropWhile_hd [OF d] by simp
  from assms d obtain c r' where r: "dropWhile (\<lambda>c. c \<noteq> CHR ''}'') (rev after) = c # r'"
    and s: "s = b # rev (c # r')"
    by (auto simp: json_match_def split: list.splits)
  have c: "c = CHR ''}''" using dropWhile_hd [OF r] by simp
  let ?pre = "takeWhile (\<lambda>c. c \<noteq> CHR ''{'') text"
  let ?tp = "takeWhile (\<lambda>c. c \<noteq> CHR ''}'') (rev after)"
  have t: "text = ?pre @ b # after" using d takeWhile_dropWhile_id [of "\<lambda>c. c \<noteq> CHR ''{''" "text"] by simp
  have "rev after = ?tp @ c # r'"
    using r takeWhile_dropWhile_id [of "\<lambda>c. c \<noteq> CHR ''}''" "rev after"] by simp
  then have "rev (rev after) = rev (?tp @ c # r')" by simp
  then have a: "after = rev r' @ [c] @ rev ?tp" by simp
  have p1: "CHR ''{'' \<notin> set ?pre" using set_takeWhileD [of "CHR ''{''" "\<lambda>c. c \<noteq> CHR ''{''" "text"] by auto
  have p2: "CHR ''}'' \<notin> set (rev ?tp)"
    using set_takeWhileD [of "CHR ''}''" "\<lambda>c. c \<noteq> CHR ''}''" "rev after"] by auto
  have "text = ?pre @ s @ rev ?tp" using t a s by simp
  moreover have "s = CHR ''{'' # rev r' @ [CHR ''}'']" using s b c by simp
  ultimately show ?thesis using p1 p2 by blast
qed

lemma json_match_decomp:
  assumes "CHR ''{'' \<notin> set pre" and "CHR ''}'' \<notin> set post"
  shows "json_match (pre @ (CHR ''{'' # mid @ [CHR ''}'']) @ post) = Some (CHR ''{'' # mid @ [CHR ''}''])"
proof -
  have p: "\<And>x. x \<in> set pre \<Longrightarrow> x \<noteq> CHR ''{''" using assms(1) by auto
  have q: "\<And>x. x \<in> set (rev post) \<Longrightarrow> x \<noteq> CHR ''}''" using assms(2) by auto
  have "dropWhile (\<lambda>c. c \<noteq> CHR ''{'') (pre @ CHR ''{'' # (mid @ [CHR ''}''] @ post))
          = dropWhile (\<lambda>c. c \<noteq> CHR ''{'') (CHR ''{'' # (mid @ [CHR ''}''] @ post))"
    using p by (rule dropWhile_append2)
  then have 1: "dropWhile (\<lambda>c. c \<noteq> CHR ''{'') (pre @ (CHR ''{'' # mid @ [CHR ''}'']) @ post)
             = CHR ''{'' # (mid @ [CHR ''}''] @ post)"
    by simp
  have r: "rev (mid @ [CHR ''}''] @ post) = rev post @ CHR ''}'' # rev mid" by simp
  have "dropWhile (\<lambda>c. c \<noteq> CHR ''}'') (rev post @ CHR ''}'' # rev mid)
          = dropWhile (\<lambda>c. c \<noteq> CHR ''}'') (CHR ''}'' # rev mid)"
    using q by (rule dropWhile_append2)
  then have 2: "dropWhile (\<lambda>c. c \<noteq> CHR ''}'') (rev (mid @ [CHR ''}''] @ post)) = CHR ''}'' # rev mid"
    unfolding r by simp
  show ?thesis unfolding json_match_def 1 list.case 2 by simp
qed

lemma json_match_iff:
  "json_match text = Some s \<longleftrightarrow>
     (\<exists>pre mid post. text = pre @ s @ post \<and> s = CHR ''{'' # mid @ [CHR ''}''] \<and>
        CHR ''{'' \<notin> set pre \<and> CHR ''}'' \<notin> set post)"
  using json_match_Some json_match_decomp by blast

lemma strip_leading_shape:
  "\<exists>pre. s = pre @ strip_leading_fence s \<and>
     (pre = [] \<or> (toLowerCase (take 7 pre) = ''```json'' \<and> list_all is_space (drop 7 pre)))"
proof (cases "toLowerCase (take 7 s) = ''```json''")
  case False
  then show ?thesis by (simp add: strip_leading_fence_def)
next
  case True
  let ?pre = "take 7 s @ takeWhile is_space (drop 7 s)"
  have l: "length (take 7 s) = 7"
  proof -
    have "length (toLowerCase (take 7 s)) = 7" using True by simp
    then show ?thesis by (simp add: toLowerCase_def)
  qed
  have "s = take 7 s @ drop 7 s" by simp
  also have "drop 7 s = takeWhile is_space (drop 7 s) @ dropWhile is_space (drop 7 s)" by simp
  finally have 1: "s = ?pre @ strip_leading_fence s"
    using True by (simp add: strip_leading_fence_def)
  have 2: "take 7 ?pre = take 7 s" using l by simp
  have 3: "drop 7 ?pre = takeWhile is_space (drop 7 s)" using l by simp
  have 4: "list_all is_space (takeWhile is_space (drop 7 s))"
    by (simp add: list_all_iff) (meson set_takeWhileD)
  from 1 2 3 4 True show ?thesis by metis
qed

lemma strip_trailing_shape:
  "\<exists>post. s = strip_trailing_fence s @ post \<and>
     (post = [] \<or> (\<exists>ws. post = ws @ ''```'' \<and> list_all is_space ws))"
proof (cases "take 3 (rev s) = ''```''")
  case False
  then show ?thesis by (simp add: strip_trailing_fence_def)
next
  case True
  let ?r = "drop 3 (rev s)"
  let ?ws = "rev (takeWhile is_space ?r)"
  have a: "rev s = ''```'' @ ?r" using True append_take_drop_id [of 3 "rev s"] by simp
  have b: "?r = takeWhile is_space ?r @ dropWhile is_space ?r" by simp
  have "rev (rev s) = rev (''```'' @ ?r)" using a by (rule arg_cong)
  then have c: "s = rev ?r @ ''```''" by simp
  have "rev ?r = rev (takeWhile is_space ?r @ dropWhile is_space ?r)" using b by (rule arg_cong)
  then have d: "rev ?r = rev (dropWhile is_space ?r) @ ?ws" by (simp only: rev_append)
  have "s = (rev (dropWhile is_space ?r) @ ?ws) @ ''```''" using c d by simp
  then have 1: "s = strip_trailing_fence s @ ?ws @ ''```''"
    using True by (simp add: strip_trailing_fence_def)
  have 2: "list_all is_space ?ws"
    by (simp add: list_all_iff) (meson set_takeWhileD)
  from 1 2 show ?thesis by blast
qed

lemma clean_text_shape:
  "\<exists>pre post. trim text = pre @ clean_text text @ post \<and>
     (pre = [] \<or> (toLowerCase (take 7 pre) = ''```json'' \<and> list_all is_space (drop 7 pre))) \<and>
     (post = [] \<or> (\<exists>ws. post = ws @ ''```'' \<and> list_all is_space ws))"
proof -
  from strip_leading_shape [of "trim text"] obtain pre where
    p: "trim text = pre @ strip_leading_fence (trim text)"
      "pre = [] \<or> (toLowerCase (take 7 pre) = ''```json'' \<and> list_all is_space (drop 7 pre))"
    by blast
  from strip_trailing_shape [of "strip_leading_fence (trim text)"] obtain post where
    q: "strip_leading_fence (trim text) = clean_text text @ post"
      "post = [] \<or> (\<exists>ws. post = ws @ ''```'' \<and> list_all is_space ws)"
    unfolding clean_text_def by blast
  from p(1) q(1) have "trim text = pre @ clean_text text @ post" by simp
  with p(2) q(2) show ?thesis by blast
qed

lemma clean_text_fenced:
  assumes "list_all is_space ws1" "list_all is_space ws2" "body \<noteq> []"
    "\<not> is_space (hd body)" "\<not> is_space (last body)"
  shows "clean_text (''```json'' @ ws1 @ body @ ws2 @ ''```'') = body"
proof -
  let ?t = "''```json'' @ ws1 @ body @ ws2 @ ''```''"
  have nb: "\<not> is_space CHR ''`''" by (simp add: is_space_def)
  have t1: "dropWhile is_space ?t = ?t" using nb by simp
  have "rev ?t = ''```'' @ rev (''```json'' @ ws1 @ body @ ws2)" by simp
  then have t2: "dropWhile is_space (rev ?t) = rev ?t" using nb by simp
  have tr: "trim ?t = ?t" unfolding trim_def t1 t2 by simp
  have lw: "toLowerCase ''```json'' = ''```json''" by (simp add: toLowerCase_def lower_char_def)
  have dw: "dropWhile is_space (ws1 @ body @ ws2 @ ''```'') = body @ ws2 @ ''```''"
  proof -
    have "\<And>x. x \<in> set ws1 \<Longrightarrow> is_space x" using assms(1) by (simp add: list_all_iff)
    then have "dropWhile is_space (ws1 @ body @ ws2 @ ''```'') = dropWhile is_space (body @ ws2 @ ''```'')"
      by (rule dropWhile_append2)
    also have "\<dots> = body @ ws2 @ ''```''" using assms(3,4) by (cases body) auto
    finally show ?thesis .
  qed
  have sl: "strip_leading_fence ?t = body @ ws2 @ ''```''"
    unfolding strip_leading_fence_def using lw dw by simp
  have rv: "rev (body @ ws2 @ ''```'') = ''```'' @ rev ws2 @ rev body" by simp
  have dr: "dropWhile is_space (rev ws2 @ rev body) = rev body"
  proof -
    have "\<And>x. x \<in> set (rev ws2) \<Longrightarrow> is_space x" using assms(2) by (simp add: list_all_iff)
    then have "dropWhile is_space (rev ws2 @ rev body) = dropWhile is_space (rev body)"
      by (rule dropWhile_append2)
    also have "\<dots> = rev body" using assms(3,5) by (cases body rule: rev_cases) auto
    finally show ?thesis .
  qed
  have st: "strip_trailing_fence (body @ ws2 @ ''```'') = body"
    unfolding strip_trailing_fence_def rv using dr by simp
  show ?thesis unfolding clean_text_def tr sl st ..
qed

text \<open>
  C4 (parse strategy), as the code has it. If \<^verbatim>\<open>JSON.parse\<close> accepts the cleaned text (the
  text trimmed, a leading \<^verbatim>\<open>```json\<close> marker with the white space after it and a trailing
  \<^verbatim>\<open>```\<close> marker with the white space before it removed), parsing returns that value. If
  not, and the text has an opening brace with a closing brace somewhere after it, the
  substring from the first opening brace to the last closing brace is parsed and its
  value returned. If that fails too, or there is no such substring, parsing throws
  \<^verbatim>\<open>JSON_PARSE_FAILED\<close> with the original text and the message of the first failure. The
  match is the one substring that starts with the first opening brace of the text and
  ends with its last closing brace; a fenced body without outer white space is cleaned
  to the body itself; and the cleaned text is the trimmed text without such a leading
  marker, if it has one, and without such a trailing marker, if it has one.
\<close>

theorem parse_strategy:
  "(\<forall>data. parse (clean_text text) = Inr data \<longrightarrow> parseJSONResponse parse text = Inr data) \<and>
   (\<forall>m1 s data. parse (clean_text text) = Inl m1 \<and> json_match text = Some s \<and> parse s = Inr data
      \<longrightarrow> parseJSONResponse parse text = Inr data) \<and>
   (\<forall>m1 s m2. parse (clean_text text) = Inl m1 \<and> json_match text = Some s \<and> parse s = Inl m2
      \<longrightarrow> parseJSONResponse parse text = Inl (parse_failed text m1)) \<and>
   (\<forall>m1. parse (clean_text text) = Inl m1 \<and> json_match text = None
      \<longrightarrow> parseJSONResponse parse text = Inl (parse_failed text m1)) \<and>
   (\<forall>s. json_match text = Some s \<longleftrightarrow>
      (\<exists>pre mid post. text = pre @ s @ post \<and> s = CHR ''{'' # mid @ [CHR ''}''] \<and>
         CHR ''{'' \<notin> set pre \<and> CHR ''}'' \<notin> set post)) \<and>
   (\<forall>m. e_message (parse_failed text m) = ''JSON_PARSE_FAILED'' \<and>
        e_rawText (parse_failed text m) = JStr text \<and>
        e_parseError (parse_failed text m) = JStr m) \<and>
   (\<forall>ws1 ws2 body. list_all is_space ws1 \<and> list_all is_space ws2 \<and> body \<noteq> [] \<and>
        \<not> is_space (hd body) \<and> \<not> is_space (last body)
      \<longrightarrow> clean_text (''```json'' @ ws1 @ body @ ws2 @ ''```'') = body) \<and>
   (\<exists>pre post. trim text = pre @ clean_text text @ post \<and>
      (pre = [] \<or> (toLowerCase (take 7 pre) = ''```json'' \<and> list_all is_space (drop 7 pre))) \<and>
      (post = [] \<or> (\<exists>ws. post = ws @ ''```'' \<and> list_all is_space ws)))"
proof -
  have a: "\<forall>data. parse (clean_text text) = Inr data \<longrightarrow> parseJSONResponse parse text = Inr data"
    by (simp add: parseJSONResponse_def)
  have b: "\<forall>m1 s data. parse (clean_text text) = Inl m1 \<and> json_match text = Some s \<and> parse s = Inr data
      \<longrightarrow> parseJSONResponse parse text = Inr data"
    by (simp add: parseJSONResponse_def)
  have c: "\<forall>m1 s m2. parse (clean_text text) = Inl m1 \<and> json_match text = Some s \<and> parse s = Inl m2
      \<longrightarrow> parseJSONResponse parse text = Inl (parse_failed text m1)"
    by (simp add: parseJSONResponse_def)
  have d: "\<forall>m1. parse (clean_text text) = Inl m1 \<and> json_match text = None
      \<longrightarrow> parseJSONResponse parse text = Inl (parse_failed text m1)"
    by (simp add: parseJSONResponse_def)
  have e: "\<forall>s. json_match text = Some s \<longleftrightarrow>
      (\<exists>pre mid post. text = pre @ s @ post \<and> s = CHR ''{'' # mid @ [CHR ''}''] \<and>
         CHR ''{'' \<notin> set pre \<and> CHR ''}'' \<notin> set post)"
    using json_match_iff by blast
  have f: "\<forall>m. e_message (parse_failed text m) = ''JSON_PARSE_FAILED'' \<and>
        e_rawText (parse_failed text m) = JStr text \<and>
        e_parseError (parse_failed text m) = JStr m"
    by (simp add: parse_failed_def new_error_def)
  have g: "\<forall>ws1 ws2 body. list_all is_space ws1 \<and> list_all is_space ws2 \<and> body \<noteq> [] \<and>
        \<not> is_space (hd body) \<and> \<not> is_space (last body)
      \<longrightarrow> clean_text (''```json'' @ ws1 @ body @ ws2 @ ''```'') = body"
    using clean_text_fenced by blast
  note h = clean_text_shape [of "text"]
  from a b c d e f g h show ?thesis by (intro conjI)
qed

theorem parse_strategy_witness:
  "parse_sample (clean_text ''```json {} ```'') = Inr (JObj []) \<and>
   parseJSONResponse parse_sample ''```json {} ```'' = Inr (JObj []) \<and>
   parse_sample (clean_text ''Sure: {} done'') = Inl ''Unexpected token in JSON: Sure: {} done'' \<and>
   json_match ''Sure: {} done'' = Some ''{}'' \<and>
   parseJSONResponse parse_sample ''Sure: {} done'' = Inr (JObj []) \<and>
   json_match ''so {} or {}'' = Some ''{} or {}'' \<and>
   parseJSONResponse parse_sample ''so {} or {}'' =
     Inl (parse_failed ''so {} or {}'' ''Unexpected token in JSON: so {} or {}'') \<and>
   json_match ''no json'' = None \<and>
   parseJSONResponse parse_sample ''no json'' =
     Inl (parse_failed ''no json'' ''Unexpected token in JSON: no json'') \<and>
   clean_text (''```json'' @ '' '' @ ''{}'' @ '' '' @ ''```'') = ''{}''"
proof -
  have c1: "clean_text ''```json {} ```'' = ''{}''"
    by (simp add: clean_text_def trim_def is_space_def strip_leading_fence_def
        strip_trailing_fence_def toLowerCase_def lower_char_def)
  have a1: "parse_sample (clean_text ''```json {} ```'') = Inr (JObj [])"
    by (simp add: c1 parse_sample_def)
  have c2: "clean_text ''Sure: {} done'' = ''Sure: {} done''"
    by (simp add: clean_text_def trim_def is_space_def strip_leading_fence_def
        strip_trailing_fence_def toLowerCase_def lower_char_def)
  have a2: "parse_sample (clean_text ''Sure: {} done'') = Inl ''Unexpected token in JSON: Sure: {} done''"
    by (simp add: c2 parse_sample_def)
  have m2: "json_match ''Sure: {} done'' = Some ''{}''" by (simp add: json_match_def)
  have p2: "parse_sample ''{}'' = Inr (JObj [])" by (simp add: parse_sample_def)
  have c3: "clean_text ''so {} or {}'' = ''so {} or {}''"
    by (simp add: clean_text_def trim_def is_space_def strip_leading_fence_def
        strip_trailing_fence_def toLowerCase_def lower_char_def)
  have a3: "parse_sample (clean_text ''so {} or {}'') = Inl ''Unexpected token in JSON: so {} or {}''"
    by (simp add: c3 parse_sample_def)
  have m3: "json_match ''so {} or {}'' = Some ''{} or {}''" by (simp add: json_match_def)
  have p3: "parse_sample ''{} or {}'' = Inl ''Unexpected token in JSON: {} or {}''"
    by (simp add: parse_sample_def)
  have c4: "clean_text ''no json'' = ''no json''"
    by (simp add: clean_text_def trim_def is_space_def strip_leading_fence_def
        strip_trailing_fence_def toLowerCase_def lower_char_def)
  have a4: "parse_sample (clean_text ''no json'') = Inl ''Unexpected token in JSON: no json''"
    by (simp add: c4 parse_sample_def)
  have m4: "json_match ''no json'' = None" by (simp add: json_match_def)
  have g: "list_all is_space '' '' \<and> list_all is_space '' '' \<and> ''{}'' \<noteq> [] \<and>
      \<not> is_space (hd ''{}'') \<and> \<not> is_space (last ''{}'')"
    by (simp add: is_space_def)
  have r1: "parseJSONResponse parse_sample ''```json {} ```'' = Inr (JObj [])"
    using parse_strategy [of parse_sample "''```json {} ```''", THEN conjunct1] a1 by simp
  have r2: "parseJSONResponse parse_sample ''Sure: {} done'' = Inr (JObj [])"
    using parse_strategy [of parse_sample "''Sure: {} done''", THEN conjunct2, THEN conjunct1]
      a2 m2 p2 by simp
  have r3: "parseJSONResponse parse_sample ''so {} or {}'' =
      Inl (parse_failed ''so {} or {}'' ''Unexpected token in JSON: so {} or {}'')"
    using parse_strategy [of parse_sample "''so {} or {}''", THEN conjunct2, THEN conjunct2,
        THEN conjunct1] a3 m3 p3 by simp
  have r4: "parseJSONResponse parse_sample ''no json'' =
      Inl (parse_failed ''no json'' ''Unexpected token in JSON: no json'')"
    using parse_strategy [of parse_sample "''no json''", THEN conjunct2, THEN conjunct2,
        THEN conjunct2, THEN conjunct1] a4 m4 by simp
  have r5: "clean_text (''```json'' @ '' '' @ ''{}'' @ '' '' @ ''```'') = ''{}''"
    using parse_strategy [of parse_sample "''no json''", THEN conjunct2, THEN conjunct2,
        THEN conjunct2, THEN conjunct2, THEN conjunct2, THEN conjunct2, THEN conjunct1,
        rule_format, of "'' ''" "'' ''" "''{}''"] g by simp
  from a1 r1 a2 m2 r2 m3 r3 m4 r4 r5 show ?thesis by (intro conjI)
qed

text \<open>
  The claim as stated fails on the text \<^verbatim>\<open>so {} or {}\<close>: its first balanced substring is the
  valid JSON text \<^verbatim>\<open>{}\<close>, but the code extracts \<^verbatim>\<open>{} or {}\<close>, which is not JSON, and throws;
  the error carries the message of the first failure and not that of the second.
\<close>

theorem parse_strategy_counterexample:
  "json_match ''so {} or {}'' = Some ''{} or {}'' \<and>
   first_balanced ''so {} or {}'' = Some ''{}'' \<and>
   parse_sample ''{}'' = Inr (JObj []) \<and>
   parse_sample ''so {} or {}'' = Inl ''Unexpected token in JSON: so {} or {}'' \<and>
   parse_sample ''{} or {}'' = Inl ''Unexpected token in JSON: {} or {}'' \<and>
   parseJSONResponse parse_sample ''so {} or {}'' =
     Inl (parse_failed ''so {} or {}'' ''Unexpected token in JSON: so {} or {}'') \<and>
   json_match ''so {} or {}'' \<noteq> first_balanced ''so {} or {}''"
proof -
  have c: "clean_text ''so {} or {}'' = ''so {} or {}''"
    by (simp add: clean_text_def trim_def is_space_def strip_leading_fence_def
        strip_trailing_fence_def toLowerCase_def lower_char_def)
  have m: "json_match ''so {} or {}'' = Some ''{} or {}''" by (simp add: json_match_def)
  have f: "first_balanced ''so {} or {}'' = Some ''{}''" by (simp add: first_balanced_def)
  have p0: "parse_sample ''{}'' = Inr (JObj [])" by (simp add: parse_sample_def)
  have p1: "parse_sample ''so {} or {}'' = Inl ''Unexpected token in JSON: so {} or {}''"
    by (simp add: parse_sample_def)
  have p2: "parse_sample ''{} or {}'' = Inl ''Unexpected token in JSON: {} or {}''"
    by (simp add: parse_sample_def)
  have r: "parseJSONResponse parse_sample ''so {} or {}'' =
     Inl (parse_failed ''so {} or {}'' ''Unexpected token in JSON: so {} or {}'')"
    unfolding parseJSONResponse_def c m p1 by (simp add: p2)
  have n: "json_match ''so {} or {}'' \<noteq> first_balanced ''so {} or {}''"
    unfolding m f by simp
  from m f p0 p1 p2 r n show ?thesis by (intro conjI)
qed

subsection \<open>The SEO review\<close>


lemma map_of_replace_hit:
  "k \<in> fst ` set kvs \<Longrightarrow>
     map_of (map (\<lambda>(k', v'). if k' = k then (k', v) else (k', v')) kvs) k = Some v"
proof (induction kvs)
  case Nil
  then show ?case by simp
next
  case (Cons a kvs)
  obtain k0 v0 where a: "a = (k0, v0)" by (cases a)
  show ?case
  proof (cases "k0 = k")
    case True
    then show ?thesis by (simp add: a)
  next
    case False
    with Cons.prems a have "k \<in> fst ` set kvs" by auto
    then have "map_of (map (\<lambda>(k', v'). if k' = k then (k', v) else (k', v')) kvs) k = Some v"
      by (rule Cons.IH)
    with False show ?thesis by (simp add: a)
  qed
qed

lemma map_of_replace_miss:
  "x \<noteq> k \<Longrightarrow>
     map_of (map (\<lambda>(k', v'). if k' = k then (k', v) else (k', v')) kvs) x = map_of kvs x"
proof (induction kvs)
  case Nil
  then show ?case by simp
next
  case (Cons a kvs)
  obtain k0 v0 where a: "a = (k0, v0)" by (cases a)
  have ih: "map_of (map (\<lambda>(k', v'). if k' = k then (k', v) else (k', v')) kvs) x = map_of kvs x"
    using Cons.prems by (rule Cons.IH)
  show ?case
  proof (cases "k0 = k")
    case True
    with Cons.prems ih show ?thesis by (simp add: a)
  next
    case False
    with ih show ?thesis by (simp add: a)
  qed
qed

lemma map_of_obj_set: "map_of (obj_set kvs k v) x = (if x = k then Some v else map_of kvs x)"
proof (cases "k \<in> fst ` set kvs")
  case True
  then show ?thesis using map_of_replace_hit [of k kvs v] map_of_replace_miss [of x k v kvs]
    by (simp add: obj_set_def)
next
  case False
  then have n: "map_of kvs k = None" by (simp add: map_of_eq_None_iff)
  have "map_of (kvs @ [(k, v)]) x =
          (case map_of kvs x of None \<Rightarrow> (if x = k then Some v else None) | Some y \<Rightarrow> Some y)"
    by (simp add: map_add_def split: option.splits)
  with n False show ?thesis by (simp add: obj_set_def split: option.splits)
qed

lemma seo_score_range: "\<exists>x. seo_score data = Finite x \<and> 0 \<le> x \<and> x \<le> 100"
proof (cases "get_prop data ''score''")
  case (JNum n)
  then show ?thesis
    by (cases n) (auto simp: seo_score_def math_max_def math_min_def)
qed (simp_all add: seo_score_def)

lemma seo_score_cases:
  "(\<forall>x. get_prop data ''score'' = JNum (Finite x) \<longrightarrow> seo_score data = Finite (max 0 (min 100 x))) \<and>
   (get_prop data ''score'' = JNum PosInf \<longrightarrow> seo_score data = Finite 100) \<and>
   (get_prop data ''score'' = JNum NegInf \<longrightarrow> seo_score data = Finite 0) \<and>
   ((\<forall>n. get_prop data ''score'' \<noteq> JNum n) \<longrightarrow> seo_score data = Finite 75)"
  by (cases "get_prop data ''score''") (auto simp: seo_score_def math_max_def math_min_def)

lemma seo_result_fields:
  "get_prop (seo_result params data) ''score'' = JNum (seo_score data)"
  "get_prop (seo_result params data) ''recommendations'' = array_or_empty data ''recommendations''"
  "get_prop (get_prop (seo_result params data) ''analysis'') ''strengths'' = array_or_empty data ''strengths''"
  "get_prop (get_prop (seo_result params data) ''analysis'') ''improvements'' = array_or_empty data ''issues''"
  by (simp_all add: seo_result_def Let_def map_of_obj_set)

lemma generateSEOReview_parsed:
  assumes "truthy (get_prop params ''article'')"
    and "truthy (get_prop (get_prop params ''article'') ''content'')"
    and "is_string (get_prop (get_prop params ''article'') ''content'')"
    and "truthy (get_prop params ''topic'')"
    and "is_array (param_default params ''keywords'' (JArr []))"
    and "keywords_listed 10 (param_default params ''keywords'' (JArr []))"
    and "converts (get_prop (get_prop params ''article'') ''title'')"
    and "converts (get_prop params ''topic'')"
    and "generateText cfg env (entered w) = (Inr (text, tokens), w1)"
    and "parseJSONResponse (json_parse env) text = Inr data"
  shows "generateSEOReview cfg env params w =
           (Inr \<lparr>r_result = seo_result params data, r_tokensUsed = tokens,
                 r_model = gemini_model cfg\<rparr>, w1)"
  using assms by (simp add: generateSEOReview_def call_and_parse_def Let_def)

text \<open>
  C9 (SEO score normalisation). Whatever the parsed answer \<open>data\<close> is, the score of the
  result is a finite number between 0 and 100: a numeric score is clamped to that range,
  anything else gives 75. The recommendations, and the strengths and improvements of the
  analysis (the latter from \<^verbatim>\<open>issues\<close>), are the arrays of the answer, or empty arrays when
  the answer has none. Once the parameters have passed the checks and the prompt is
  built (the keyword strings are joined, the title and the topic convert to strings),
  the provider has answered and the answer has parsed, \<^verbatim>\<open>generateSEOReview\<close> returns this
  result: the normalisation does not throw.
\<close>

theorem seo_normalisation:
  "(\<exists>x. get_prop (seo_result params data) ''score'' = JNum (Finite x) \<and> 0 \<le> x \<and> x \<le> 100) \<and>
   (\<forall>x. get_prop data ''score'' = JNum (Finite x) \<longrightarrow>
      get_prop (seo_result params data) ''score'' = JNum (Finite (max 0 (min 100 x)))) \<and>
   (get_prop data ''score'' = JNum PosInf \<longrightarrow>
      get_prop (seo_result params data) ''score'' = JNum (Finite 100)) \<and>
   (get_prop data ''score'' = JNum NegInf \<longrightarrow>
      get_prop (seo_result params data) ''score'' = JNum (Finite 0)) \<and>
   ((\<forall>n. get_prop data ''score'' \<noteq> JNum n) \<longrightarrow>
      get_prop (seo_result params data) ''score'' = JNum (Finite 75)) \<and>
   get_prop (seo_result params data) ''recommendations'' =
     (if is_array (get_prop data ''recommendations'') then get_prop data ''recommendations''
      else JArr []) \<and>
   get_prop (get_prop (seo_result params data) ''analysis'') ''strengths'' =
     (if is_array (get_prop data ''strengths'') then get_prop data ''strengths'' else JArr []) \<and>
   get_prop (get_prop (seo_result params data) ''analysis'') ''improvements'' =
     (if is_array (get_prop data ''issues'') then get_prop data ''issues'' else JArr []) \<and>
   (\<forall>cfg env w text tokens w1.
      truthy (get_prop params ''article'') \<and>
      truthy (get_prop (get_prop params ''article'') ''content'') \<and>
      is_string (get_prop (get_prop params ''article'') ''content'') \<and>
      truthy (get_prop params ''topic'') \<and>
      is_array (param_default params ''keywords'' (JArr [])) \<and>
      keywords_listed 10 (param_default params ''keywords'' (JArr [])) \<and>
      converts (get_prop (get_prop params ''article'') ''title'') \<and>
      converts (get_prop params ''topic'') \<and>
      generateText cfg env (entered w) = (Inr (text, tokens), w1) \<and>
      parseJSONResponse (json_parse env) text = Inr data \<longrightarrow>
      generateSEOReview cfg env params w =
        (Inr \<lparr>r_result = seo_result params data, r_tokensUsed = tokens,
              r_model = gemini_model cfg\<rparr>, w1))"
proof -
  note f = seo_result_fields [of params data]
  have 1: "\<exists>x. get_prop (seo_result params data) ''score'' = JNum (Finite x) \<and> 0 \<le> x \<and> x \<le> 100"
    using seo_score_range [of data] by (simp add: f)
  note c = seo_score_cases [of data]
  have 2: "\<forall>x. get_prop data ''score'' = JNum (Finite x) \<longrightarrow>
      get_prop (seo_result params data) ''score'' = JNum (Finite (max 0 (min 100 x)))"
    using c by (simp add: f)
  have 3: "get_prop data ''score'' = JNum PosInf \<longrightarrow>
      get_prop (seo_result params data) ''score'' = JNum (Finite 100)"
    using c by (simp add: f)
  have 4: "get_prop data ''score'' = JNum NegInf \<longrightarrow>
      get_prop (seo_result params data) ''score'' = JNum (Finite 0)"
    using c by (simp add: f)
  have 5: "(\<forall>n. get_prop data ''score'' \<noteq> JNum n) \<longrightarrow>
      get_prop (seo_result params data) ''score'' = JNum (Finite 75)"
    using c by (simp add: f)
  have 6: "get_prop (seo_result params data) ''recommendations'' =
     (if is_array (get_prop data ''recommendations'') then get_prop data ''recommendations''
      else JArr [])"
    by (simp add: f array_or_empty_def)
  have 7: "get_prop (get_prop (seo_result params data) ''analysis'') ''strengths'' =
     (if is_array (get_prop data ''strengths'') then get_prop data ''strengths'' else JArr [])"
    by (simp add: f array_or_empty_def)
  have 8: "get_prop (get_prop (seo_result params data) ''analysis'') ''improvements'' =
     (if is_array (get_prop data ''issues'') then get_prop data ''issues'' else JArr [])"
    by (simp add: f array_or_empty_def)
  have 9: "\<forall>cfg env w text tokens w1.
      truthy (get_prop params ''article'') \<and>
      truthy (get_prop (get_prop params ''article'') ''content'') \<and>
      is_string (get_prop (get_prop params ''article'') ''content'') \<and>
      truthy (get_prop params ''topic'') \<and>
      is_array (param_default params ''keywords'' (JArr [])) \<and>
      keywords_listed 10 (param_default params ''keywords'' (JArr [])) \<and>
      converts (get_prop (get_prop params ''article'') ''title'') \<and>
      converts (get_prop params ''topic'') \<and>
      generateText cfg env (entered w) = (Inr (text, tokens), w1) \<and>
      parseJSONResponse (json_parse env) text = Inr data \<longrightarrow>
      generateSEOReview cfg env params w =
        (Inr \<lparr>r_result = seo_result params data, r_tokensUsed = tokens,
              r_model = gemini_model cfg\<rparr>, w1)"
    using generateSEOReview_parsed by blast
  from 1 2 3 4 5 6 7 8 9 show ?thesis by (intro conjI)
qed

theorem seo_normalisation_witness:
  "get_prop (JObj [(''score'', JNum (Finite 150))]) ''score'' = JNum (Finite 150) \<and>
   get_prop (seo_result seo_params (JObj [(''score'', JNum (Finite 150))])) ''score'' = JNum (Finite 100) \<and>
   (\<forall>n. get_prop (JObj []) ''score'' \<noteq> JNum n) \<and>
   get_prop (seo_result seo_params (JObj [])) ''score'' = JNum (Finite 75) \<and>
   get_prop (seo_result seo_params (JObj [])) ''recommendations'' = JArr [] \<and>
   get_prop (get_prop (seo_result seo_params (JObj [])) ''analysis'') ''strengths'' = JArr [] \<and>
   get_prop (get_prop (seo_result seo_params (JObj [])) ''analysis'') ''improvements'' = JArr [] \<and>
   generateSEOReview default_config env_fenced seo_params (idle []) =
     (Inr \<lparr>r_result = seo_result seo_params (JObj []), r_tokensUsed = 42,
           r_model = ''gemini-2.0-flash-exp''\<rparr>,
      (idle [])\<lparr>gcalls := 1, pcalls := 1\<rparr>)"
proof -
  have s1: "get_prop (JObj [(''score'', JNum (Finite 150))]) ''score'' = JNum (Finite 150)" by simp
  have s2: "\<forall>n. get_prop (JObj []) ''score'' \<noteq> JNum n" by simp
  note t1 = seo_normalisation [of seo_params "JObj [(''score'', JNum (Finite 150))]"]
  note t2 = seo_normalisation [of seo_params "JObj []"]
  have r1: "get_prop (seo_result seo_params (JObj [(''score'', JNum (Finite 150))])) ''score''
      = JNum (Finite 100)"
    using t1 [THEN conjunct2, THEN conjunct1] s1 by simp
  have r2: "get_prop (seo_result seo_params (JObj [])) ''score'' = JNum (Finite 75)"
    using t2 [THEN conjunct2, THEN conjunct2, THEN conjunct2, THEN conjunct2, THEN conjunct1] s2
    by simp
  have r3: "get_prop (seo_result seo_params (JObj [])) ''recommendations'' = JArr []"
    using t2 [THEN conjunct2, THEN conjunct2, THEN conjunct2, THEN conjunct2, THEN conjunct2,
        THEN conjunct1] by simp
  have r4: "get_prop (get_prop (seo_result seo_params (JObj [])) ''analysis'') ''strengths'' = JArr []"
    using t2 [THEN conjunct2, THEN conjunct2, THEN conjunct2, THEN conjunct2, THEN conjunct2,
        THEN conjunct2, THEN conjunct1] by simp
  have r5: "get_prop (get_prop (seo_result seo_params (JObj [])) ''analysis'') ''improvements'' = JArr []"
    using t2 [THEN conjunct2, THEN conjunct2, THEN conjunct2, THEN conjunct2, THEN conjunct2,
        THEN conjunct2, THEN conjunct2, THEN conjunct1] by simp
  have g: "generateText default_config env_fenced (entered (idle [])) =
      (Inr (''```json {} ```'', 42), (idle [])\<lparr>gcalls := 1, pcalls := 1\<rparr>)"
    by (simp add: generateText_def default_config_def env_fenced_def entered_def idle_def
        withRetry.simps)
  have c: "clean_text ''```json {} ```'' = ''{}''"
    by (simp add: clean_text_def trim_def is_space_def strip_leading_fence_def
        strip_trailing_fence_def toLowerCase_def lower_char_def)
  have p: "parseJSONResponse (json_parse env_fenced) ''```json {} ```'' = Inr (JObj [])"
    by (simp add: parseJSONResponse_def c env_fenced_def parse_sample_def)
  have k: "truthy (get_prop seo_params ''article'') \<and>
      truthy (get_prop (get_prop seo_params ''article'') ''content'') \<and>
      is_string (get_prop (get_prop seo_params ''article'') ''content'') \<and>
      truthy (get_prop seo_params ''topic'') \<and>
      is_array (param_default seo_params ''keywords'' (JArr [])) \<and>
      keywords_listed 10 (param_default seo_params ''keywords'' (JArr [])) \<and>
      converts (get_prop (get_prop seo_params ''article'') ''title'') \<and>
      converts (get_prop seo_params ''topic'')"
    by (simp add: seo_params_def param_default_def keywords_listed_def keyword_strings_def
        joins_def)
  have m: "gemini_model default_config = ''gemini-2.0-flash-exp''" by (simp add: default_config_def)
  have r6: "generateSEOReview default_config env_fenced seo_params (idle []) =
     (Inr \<lparr>r_result = seo_result seo_params (JObj []), r_tokensUsed = 42,
           r_model = ''gemini-2.0-flash-exp''\<rparr>,
      (idle [])\<lparr>gcalls := 1, pcalls := 1\<rparr>)"
    using t2 [THEN conjunct2, THEN conjunct2, THEN conjunct2, THEN conjunct2, THEN conjunct2,
        THEN conjunct2, THEN conjunct2, THEN conjunct2, rule_format,
        of default_config env_fenced "idle []" "''```json {} ```''" 42
           "(idle [])\<lparr>gcalls := 1, pcalls := 1\<rparr>"] k g p m
    by simp
  from s1 r1 s2 r2 r3 r4 r5 r6 show ?thesis by (intro conjI)
qed

section \<open>Properties of the job runner\<close>

subsection \<open>What a tick preserves\<close>

lemma whole_iff: "whole x \<longleftrightarrow> (\<exists>n. x = real n)"
proof
  assume "whole x"
  then have "x = real (nat \<lfloor>x\<rfloor>)" by (simp add: whole_def)
  then show "\<exists>n. x = real n" ..
next
  assume "\<exists>n. x = real n"
  then obtain n where "x = real n" ..
  then show "whole x" by (simp add: whole_def)
qed

lemma whole_next:
  assumes "whole m" and "whole a" and "a < m"
  shows "whole (a + 1) \<and> a + 1 \<le> m"
proof -
  from assms(1,2) obtain k n where m: "m = real k" and a: "a = real n"
    by (auto simp: whole_iff)
  with assms(3) have "n < k" by simp
  then have "real (Suc n) \<le> real k" by (simp only: of_nat_le_iff Suc_le_eq)
  moreover have "a + 1 = real (Suc n)" using a by simp
  ultimately show ?thesis using m whole_iff by metis
qed

lemma counters_ok_iff:
  "counters_ok cfg s \<longleftrightarrow> (\<forall>j \<in> set s. whole (attempt j) \<and> attempt j \<le> max_attempts cfg)"
  by (auto simp: counters_ok_def counters_whole_def attempts_bounded_def)

lemma update_job_ok:
  assumes "counters_ok cfg s"
    and "\<And>k. whole (attempt k) \<Longrightarrow> attempt k \<le> max_attempts cfg \<Longrightarrow>
           whole (attempt (f k)) \<and> attempt (f k) \<le> max_attempts cfg"
  shows "counters_ok cfg (update_job i f s)"
  using assms by (auto simp: counters_ok_iff update_job_def)

lemma updateOne_step:
  assumes "updateOne env i f w = (r, w')"
    and "\<And>k. whole (attempt k) \<Longrightarrow> attempt k \<le> max_attempts cfg \<Longrightarrow>
           whole (attempt (f k)) \<and> attempt (f k) \<le> max_attempts cfg"
  shows "counters_ok cfg (store w) \<longrightarrow> counters_ok cfg (store w')"
proof (cases "store_fails env (scalls w)")
  case None
  with assms(1) have "w' = w\<lparr>scalls := Suc (scalls w), store := update_job i f (store w)\<rparr>"
    by (simp add: updateOne_def)
  then show ?thesis using update_job_ok [of cfg "store w" f i] assms(2) by simp
next
  case (Some e)
  with assms(1) show ?thesis by (auto simp: updateOne_def)
qed

lemma try_attempt_step:
  assumes "try_attempt cfg env job a w = (r, w')" and "a < max_attempts cfg"
    and "whole (max_attempts cfg)" and "whole a"
  shows "counters_ok cfg (store w) \<longrightarrow> counters_ok cfg (store w')"
proof -
  obtain d w1 where d: "dispatch cfg env job w = (d, w1)" by (cases "dispatch cfg env job w")
  then have f: "store w1 = store w"
    using dispatch_frame by (auto simp: same_frame_def)
  show ?thesis
  proof (cases d)
    case (Inl t)
    with assms d f show ?thesis by (simp add: try_attempt_def)
  next
    case (Inr resp)
    obtain u w2 where u: "updateOne env (job_id job) (success_update a resp) w1 = (u, w2)"
      by (cases "updateOne env (job_id job) (success_update a resp) w1")
    have "\<And>k. whole (attempt (success_update a resp k)) \<and>
        attempt (success_update a resp k) \<le> max_attempts cfg"
      using whole_next [OF assms(3,4,2)] by (simp add: success_update_def)
    from updateOne_step [OF u this] f
    have "counters_ok cfg (store w) \<longrightarrow> counters_ok cfg (store w2)" by simp
    moreover have "w' = w2" using assms(1) d Inr u by (auto simp: try_attempt_def split: option.splits)
    ultimately show ?thesis by simp
  qed
qed

lemma attempt_loop_step:
  "attempt_loop cfg env job a l w = (r, w') \<Longrightarrow> whole (max_attempts cfg) \<Longrightarrow> whole a \<Longrightarrow>
     counters_ok cfg (store w) \<longrightarrow> counters_ok cfg (store w')"
proof (induction cfg env job a l w arbitrary: r w' rule: attempt_loop.induct)
  case (1 cfg env job a lastErr w)
  show ?case
  proof (cases "a < max_attempts cfg")
    case False
    with "1.prems"(1) show ?thesis by (subst (asm) attempt_loop.simps) simp
  next
    case True
    obtain t w1 where t: "try_attempt cfg env job a w = (t, w1)"
      by (cases "try_attempt cfg env job a w")
    note s = try_attempt_step [OF t True "1.prems"(2,3)]
    show ?thesis
    proof (cases t)
      case None
      with "1.prems"(1) True t have "w' = w1" by (subst (asm) attempt_loop.simps) simp
      with s show ?thesis by simp
    next
      case (Some th)
      show ?thesis
      proof (cases th)
        case None
        with "1.prems"(1) True t Some have "w' = w1" by (subst (asm) attempt_loop.simps) simp
        with s show ?thesis by simp
      next
        case (Some err)
        with "1.prems"(1) True t \<open>t = Some th\<close>
        have "attempt_loop cfg env job (a + 1) (Some err) (sleep (300 + a * 300) w1) = (r, w')"
          by (subst (asm) attempt_loop.simps) simp
        moreover have "whole (a + 1)" using whole_next [OF "1.prems"(2,3) True] by simp
        ultimately show ?thesis
          using "1.IH" [OF True t [symmetric] \<open>t = Some th\<close> Some _ "1.prems"(2)] s
          by (simp add: sleep_def)
      qed
    qed
  qed
qed

lemma claim_ok:
  assumes "claimOldestPending inst now s = (r, s')" and "counters_ok cfg s"
  shows "counters_ok cfg s'"
  using assms
  by (auto simp: claimOldestPending_def Let_def counters_ok_iff replace_job_def
      claim_update_def split: list.splits dest!: sort_key_hd_min)

lemma claimed_attempt:
  assumes "claimOldestPending inst now s = (Some job, s1)"
  shows "\<exists>j \<in> set s. attempt job = attempt j"
proof -
  from claim_Some [OF assms] obtain j where "j \<in> set s" "job = claim_update inst now j" by blast
  then show ?thesis by (auto simp: claim_update_def)
qed

lemma findOneAndUpdate_step:
  assumes "findOneAndUpdate cfg env now w = (r, w')"
  shows "counters_ok cfg (store w) \<longrightarrow> counters_ok cfg (store w')"
  using assms
  by (auto simp: findOneAndUpdate_def split: option.splits prod.splits dest: claim_ok)

lemma findOneAndUpdate_Some:
  assumes "findOneAndUpdate cfg env now w = (Inr (Some job), w1)"
  shows "store_fails env (scalls w) = None \<and>
         claimOldestPending (instance_id cfg) now (store w) = (Some job, store w1) \<and>
         w1 = w\<lparr>scalls := Suc (scalls w), store := store w1\<rparr>"
  using assms by (auto simp: findOneAndUpdate_def split: option.splits prod.splits)

lemma mark_uncaught_step:
  "counters_ok cfg (store w) \<longrightarrow> counters_ok cfg (store (mark_uncaught cfg env job err w))"
proof -
  obtain u w1 where u: "updateOne env (job_id job) (uncaught_update cfg err) w = (u, w1)"
    by (cases "updateOne env (job_id job) (uncaught_update cfg err) w")
  have "\<And>k. whole (attempt k) \<Longrightarrow> attempt k \<le> max_attempts cfg \<Longrightarrow>
      whole (attempt (uncaught_update cfg err k)) \<and>
      attempt (uncaught_update cfg err k) \<le> max_attempts cfg"
    by (simp add: uncaught_update_def)
  from updateOne_step [OF u this] u show ?thesis by (simp add: mark_uncaught_def)
qed

lemma processOne_after_loop:
  "processOne cfg env now w =
     (if busy w then w
      else (case findOneAndUpdate cfg env now (w\<lparr>busy := True\<rparr>) of
        (Inl err, w1) \<Rightarrow> w1\<lparr>busy := False\<rparr>
      | (Inr None, w1) \<Rightarrow> w1\<lparr>busy := False\<rparr>
      | (Inr (Some job), w1) \<Rightarrow>
          after_loop cfg env job (attempt_loop cfg env job (attempt job) None w1)))"
  by (simp add: processOne_def after_loop_def split: prod.splits sum.splits option.splits
      loop_exit.splits)

lemma after_loop_busy: "\<not> busy (after_loop cfg env job xw)"
  by (auto simp: after_loop_def split: prod.splits loop_exit.splits option.splits)

lemma processOne_busy:
  "(busy w \<longrightarrow> processOne cfg env now w = w) \<and> (\<not> busy w \<longrightarrow> \<not> busy (processOne cfg env now w))"
  by (auto simp: processOne_after_loop after_loop_busy split: prod.splits sum.splits option.splits)

lemma after_loop_step:
  assumes "whole (max_attempts cfg)"
  shows "counters_ok cfg (store w2) \<longrightarrow> counters_ok cfg (store (after_loop cfg env job (x, w2)))"
proof (cases x)
  case (Escaped err)
  with mark_uncaught_step [of cfg w2 env job err] show ?thesis by (simp add: after_loop_def)
next
  case (Completed l)
  show ?thesis
  proof (cases l)
    case None
    with Completed show ?thesis by (simp add: after_loop_def)
  next
    case (Some lastErr)
    obtain u w3 where u: "updateOne env (job_id job) (failed_update cfg lastErr) w2 = (u, w3)"
      by (cases "updateOne env (job_id job) (failed_update cfg lastErr) w2")
    have "\<And>k. whole (attempt (failed_update cfg lastErr k)) \<and>
        attempt (failed_update cfg lastErr k) \<le> max_attempts cfg"
      using assms by (simp add: failed_update_def)
    from updateOne_step [OF u this]
    have s3: "counters_ok cfg (store w2) \<longrightarrow> counters_ok cfg (store w3)" by simp
    show ?thesis
    proof (cases u)
      case None
      with Completed Some u s3 show ?thesis by (simp add: after_loop_def)
    next
      case (Some err)
      with Completed \<open>l = Some lastErr\<close> u s3 mark_uncaught_step [of cfg w3 env job err]
      show ?thesis by (simp add: after_loop_def)
    qed
  qed
qed

lemma processOne_step:
  assumes "whole (max_attempts cfg)" and "counters_ok cfg (store w)"
  shows "counters_ok cfg (store (processOne cfg env now w))"
proof (cases "busy w")
  case True
  with assms(2) show ?thesis by (simp add: processOne_def)
next
  case False
  obtain c w1 where c: "findOneAndUpdate cfg env now (w\<lparr>busy := True\<rparr>) = (c, w1)"
    by (cases "findOneAndUpdate cfg env now (w\<lparr>busy := True\<rparr>)")
  from findOneAndUpdate_step [OF c] assms(2)
  have s1: "counters_ok cfg (store w1)" by simp
  show ?thesis
  proof (cases c)
    case (Inl e)
    with False c s1 show ?thesis by (simp add: processOne_after_loop)
  next
    case (Inr jo)
    show ?thesis
    proof (cases jo)
      case None
      with False c s1 Inr show ?thesis by (simp add: processOne_after_loop)
    next
      case (Some job)
      obtain x w2 where x: "attempt_loop cfg env job (attempt job) None w1 = (x, w2)"
        by (cases "attempt_loop cfg env job (attempt job) None w1")
      from c Inr Some findOneAndUpdate_Some [of cfg env now "w\<lparr>busy := True\<rparr>" job w1]
      have "claimOldestPending (instance_id cfg) now (store w) = (Some job, store w1)" by simp
      from claimed_attempt [OF this] assms(2) have "whole (attempt job)"
        by (auto simp: counters_ok_iff)
      from attempt_loop_step [OF x assms(1) this] s1
      have "counters_ok cfg (store w2)" by simp
      with after_loop_step [OF assms(1), of w2 env job x]
      have "counters_ok cfg (store (after_loop cfg env job (x, w2)))" by simp
      with False c Inr Some x show ?thesis by (simp add: processOne_after_loop)
    qed
  qed
qed

subsection \<open>The parameters that reach the provider\<close>

lemma truthy_js_or [simp]: "truthy b \<Longrightarrow> truthy (js_or a b)"
  by (simp add: js_or_def)

lemma js_or_defined: "b \<noteq> JUndefined \<Longrightarrow> js_or a b \<noteq> JUndefined"
  by (cases a) (auto simp: js_or_def)

lemma param_default_keywords [simp]:
  "param_default (JObj [(''article'', x), (''keywords'', js_or k (JArr [])), (''topic'', t), (''locale'', l)])
     ''keywords'' (JArr []) = js_or k (JArr [])"
  "param_default (JObj [(''keywords'', js_or k (JArr [])), (''topic'', t), (''locale'', l), (''settings'', st)])
     ''keywords'' (JArr []) = js_or k (JArr [])"
  "param_default (JObj [(''keywords'', k), (''topic'', t), (''locale'', l), (''settings'', js_or st (JObj []))])
     ''settings'' (JObj []) = js_or st (JObj [])"
  using js_or_defined [of "JArr []" k] js_or_defined [of "JObj []" st]
  by (simp_all add: param_default_def)

text \<open>
  When the parameters are accepted, an attempt is one call of a typed operation that goes
  on to \<^verbatim>\<open>generateText\<close>.
\<close>

lemma generate_accepts:
  "truthy (get_prop ps ''seed'') \<Longrightarrow> is_string (get_prop ps ''seed'') \<Longrightarrow>
     generateKeywords cfg env ps w = call_and_parse cfg env (finish env ''KEYWORDS'' ps) (entered w)"
  "truthy (get_prop ps ''topic'') \<Longrightarrow> is_string (get_prop ps ''topic'') \<Longrightarrow>
   is_array (param_default ps ''keywords'' (JArr [])) \<Longrightarrow>
   keywords_listed 10 (param_default ps ''keywords'' (JArr [])) \<Longrightarrow>
   converts (js_or (get_prop (param_default ps ''settings'' (JObj [])) ''tone'') (JStr ''professional'')) \<Longrightarrow>
     generateArticle cfg env ps w = call_and_parse cfg env (finish env ''ARTICLE'' ps) (entered w)"
  "truthy (get_prop ps ''article'') \<Longrightarrow> truthy (get_prop (get_prop ps ''article'') ''content'') \<Longrightarrow>
   truthy (get_prop ps ''topic'') \<Longrightarrow> is_array (param_default ps ''keywords'' (JArr [])) \<Longrightarrow>
   keywords_listed 10 (param_default ps ''keywords'' (JArr [])) \<Longrightarrow>
   is_string (get_prop (get_prop ps ''article'') ''content'') \<Longrightarrow>
   converts (get_prop (get_prop ps ''article'') ''title'') \<Longrightarrow> converts (get_prop ps ''topic'') \<Longrightarrow>
     generateSEOReview cfg env ps w =
       call_and_parse cfg env (\<lambda>data. Inr (seo_result ps data)) (entered w)"
  "truthy (get_prop ps ''article'') \<Longrightarrow> truthy (get_prop (get_prop ps ''article'') ''title'') \<Longrightarrow>
   truthy (get_prop ps ''topic'') \<Longrightarrow> is_array (param_default ps ''keywords'' (JArr [])) \<Longrightarrow>
   keywords_listed n (param_default ps ''keywords'' (JArr [])) \<Longrightarrow>
   is_string (get_prop (get_prop ps ''article'') ''content'') \<Longrightarrow>
   converts (get_prop (get_prop ps ''article'') ''title'') \<Longrightarrow> converts (get_prop ps ''topic'') \<Longrightarrow>
     titled_operation n kind name cfg env ps w =
       call_and_parse cfg env (finish env kind ps) (entered w)"
  by (simp_all add: generateKeywords_def generateArticle_def generateSEOReview_def
      titled_operation_def Let_def)

lemma accepted_type:
  assumes "params_accepted job"
  shows "jtype job \<in> {''KEYWORDS'', ''ARTICLE'', ''SEO'', ''META'', ''IMAGE'', ''HASHTAGS''}"
proof (rule ccontr)
  assume "jtype job \<notin> {''KEYWORDS'', ''ARTICLE'', ''SEO'', ''META'', ''IMAGE'', ''HASHTAGS''}"
  then have "\<not> params_accepted job" by (simp add: params_accepted_def Let_def)
  with assms show False by simp
qed

lemma accepted_by_type:
  "jtype job = ''KEYWORDS'' \<Longrightarrow> params_accepted job =
     is_string (js_or (js_and (payload job) (js_or (get_prop (payload job) ''seed'') (get_prop (payload job) ''topic''))) (JStr ''untitled''))"
  "jtype job = ''ARTICLE'' \<Longrightarrow> params_accepted job =
     (is_string (js_or (js_and (payload job) (js_or (get_prop (payload job) ''seed'') (get_prop (payload job) ''topic''))) (JStr ''untitled'')) \<and>
      is_array (js_or (get_prop (payload job) ''keywords'') (JArr [])) \<and>
      keywords_listed 10 (js_or (get_prop (payload job) ''keywords'') (JArr [])) \<and>
      converts (js_or (get_prop (js_or (get_prop (payload job) ''settings'') (JObj [])) ''tone'') (JStr ''professional'')))"
  by (simp_all add: params_accepted_def Let_def)

lemma accepted_article:
  "(jtype job = ''SEO'' \<and> n = 10) \<or> (jtype job = ''META'' \<and> n = 8) \<or>
   (jtype job = ''IMAGE'' \<and> n = 5) \<or> (jtype job = ''HASHTAGS'' \<and> n = 8) \<Longrightarrow>
   params_accepted job =
     (truthy (get_prop (payload job) ''title'') \<and> is_string (get_prop (payload job) ''content'') \<and>
      truthy (get_prop (payload job) ''content'') \<and>
      is_array (js_or (get_prop (payload job) ''keywords'') (JArr [])) \<and>
      keywords_listed n (js_or (get_prop (payload job) ''keywords'') (JArr [])) \<and>
      converts (get_prop (payload job) ''title'') \<and>
      converts (js_or (js_and (payload job) (js_or (get_prop (payload job) ''seed'') (get_prop (payload job) ''topic''))) (JStr ''untitled'')))"
  by (auto simp: params_accepted_def Let_def)

lemma dispatch_by_type:
  "jtype job = ''KEYWORDS'' \<Longrightarrow> dispatch cfg env job w =
     generateKeywords cfg env
       (JObj [(''seed'', js_or (js_and (payload job) (js_or (get_prop (payload job) ''seed'') (get_prop (payload job) ''topic''))) (JStr ''untitled'')),
              (''locale'', js_or (js_or (js_and (payload job) (get_prop (payload job) ''locale'')) (default_locale cfg)) (JStr ''en''))]) w"
  "jtype job = ''ARTICLE'' \<Longrightarrow> dispatch cfg env job w =
     generateArticle cfg env
       (JObj [(''keywords'', js_or (get_prop (payload job) ''keywords'') (JArr [])),
              (''topic'', js_or (js_and (payload job) (js_or (get_prop (payload job) ''seed'') (get_prop (payload job) ''topic''))) (JStr ''untitled'')),
              (''locale'', js_or (js_or (js_and (payload job) (get_prop (payload job) ''locale'')) (default_locale cfg)) (JStr ''en'')),
              (''settings'', js_or (get_prop (payload job) ''settings'') (JObj []))]) w"
  by (simp_all add: dispatch_def Let_def)

lemma dispatch_titled:
  assumes "truthy (get_prop (payload job) ''title'')" and "truthy (get_prop (payload job) ''content'')"
  shows "jtype job = ''SEO'' \<Longrightarrow> dispatch cfg env job w =
     generateSEOReview cfg env
       (JObj [(''article'', JObj [(''title'', get_prop (payload job) ''title''), (''content'', get_prop (payload job) ''content'')]),
              (''keywords'', js_or (get_prop (payload job) ''keywords'') (JArr [])),
              (''topic'', js_or (js_and (payload job) (js_or (get_prop (payload job) ''seed'') (get_prop (payload job) ''topic''))) (JStr ''untitled'')),
              (''locale'', js_or (js_or (js_and (payload job) (get_prop (payload job) ''locale'')) (default_locale cfg)) (JStr ''en''))]) w"
    and "(jtype job = ''META'' \<and> n = 8 \<and> name = ''generateMeta'') \<or>
         (jtype job = ''IMAGE'' \<and> n = 5 \<and> name = ''generateImage'') \<or>
         (jtype job = ''HASHTAGS'' \<and> n = 8 \<and> name = ''generateHashtags'') \<Longrightarrow>
     dispatch cfg env job w =
     titled_operation n (jtype job) name cfg env
       (JObj [(''article'', JObj [(''title'', get_prop (payload job) ''title''), (''content'', get_prop (payload job) ''content'')]),
              (''keywords'', js_or (get_prop (payload job) ''keywords'') (JArr [])),
              (''topic'', js_or (js_and (payload job) (js_or (get_prop (payload job) ''seed'') (get_prop (payload job) ''topic''))) (JStr ''untitled'')),
              (''locale'', js_or (js_or (js_and (payload job) (get_prop (payload job) ''locale'')) (default_locale cfg)) (JStr ''en''))]) w"
  using assms
  by (auto simp: dispatch_def Let_def generateMeta_def generateImage_def generateHashtags_def)

lemma dispatch_accepted:
  assumes "params_accepted job"
  shows "\<exists>nm. \<forall>w. dispatch cfg env job w = call_and_parse cfg env nm (entered w)"
proof -
  let ?p = "payload job"
  let ?seed = "js_or (js_and ?p (js_or (get_prop ?p ''seed'') (get_prop ?p ''topic''))) (JStr ''untitled'')"
  let ?kw = "js_or (get_prop ?p ''keywords'') (JArr [])"
  let ?loc = "js_or (js_or (js_and ?p (get_prop ?p ''locale'')) (default_locale cfg)) (JStr ''en'')"
  let ?st = "js_or (get_prop ?p ''settings'') (JObj [])"
  let ?art = "JObj [(''title'', get_prop ?p ''title''), (''content'', get_prop ?p ''content'')]"
  let ?ps = "JObj [(''article'', ?art), (''keywords'', ?kw), (''topic'', ?seed), (''locale'', ?loc)]"
  let ?pa = "JObj [(''keywords'', ?kw), (''topic'', ?seed), (''locale'', ?loc), (''settings'', ?st)]"
  have ts: "truthy ?seed" by (simp add: js_or_def)
  have gs: "get_prop ?ps ''article'' = ?art" "get_prop ?ps ''topic'' = ?seed"
    "get_prop ?art ''title'' = get_prop ?p ''title''"
    "get_prop ?art ''content'' = get_prop ?p ''content''"
    "param_default ?ps ''keywords'' (JArr []) = ?kw" "truthy ?art"
    by simp_all
  have ga: "get_prop ?pa ''topic'' = ?seed" "param_default ?pa ''keywords'' (JArr []) = ?kw"
    "param_default ?pa ''settings'' (JObj []) = ?st"
    by simp_all
  from accepted_type [OF assms]
  consider (k) "jtype job = ''KEYWORDS''" | (a) "jtype job = ''ARTICLE''"
    | (s) "jtype job = ''SEO''"
    | (t) n name where "(jtype job = ''META'' \<and> n = (8::nat) \<and> name = ''generateMeta'') \<or>
         (jtype job = ''IMAGE'' \<and> n = 5 \<and> name = ''generateImage'') \<or>
         (jtype job = ''HASHTAGS'' \<and> n = 8 \<and> name = ''generateHashtags'')"
    by blast
  then show ?thesis
  proof cases
    case k
    from k assms have s: "is_string ?seed" by (simp add: accepted_by_type(1))
    have g: "get_prop (JObj [(''seed'', ?seed), (''locale'', ?loc)]) ''seed'' = ?seed" by simp
    have "\<And>w. dispatch cfg env job w =
        call_and_parse cfg env (finish env ''KEYWORDS'' (JObj [(''seed'', ?seed), (''locale'', ?loc)]))
          (entered w)"
      unfolding dispatch_by_type(1) [OF k]
      by (rule generate_accepts(1)) (simp_all only: g ts s)
    then show ?thesis by blast
  next
    case a
    from a assms have c: "is_string ?seed" "is_array ?kw" "keywords_listed 10 ?kw"
      "converts (js_or (get_prop ?st ''tone'') (JStr ''professional''))"
      by (simp_all add: accepted_by_type(2))
    have "\<And>w. dispatch cfg env job w = call_and_parse cfg env (finish env ''ARTICLE'' ?pa) (entered w)"
      unfolding dispatch_by_type(2) [OF a]
      by (rule generate_accepts(2)) (simp_all only: ga ts c)
    then show ?thesis by blast
  next
    case s
    then have "(jtype job = ''SEO'' \<and> (10::nat) = 10) \<or> (jtype job = ''META'' \<and> (10::nat) = 8) \<or>
        (jtype job = ''IMAGE'' \<and> (10::nat) = 5) \<or> (jtype job = ''HASHTAGS'' \<and> (10::nat) = 8)" by simp
    from accepted_article [OF this] assms
    have c: "truthy (get_prop ?p ''title'')" "is_string (get_prop ?p ''content'')"
      "truthy (get_prop ?p ''content'')" "is_array ?kw" "keywords_listed 10 ?kw"
      "converts (get_prop ?p ''title'')" "converts ?seed"
      by simp_all
    have "\<And>w. dispatch cfg env job w =
        call_and_parse cfg env (\<lambda>data. Inr (seo_result ?ps data)) (entered w)"
      unfolding dispatch_titled(1) [OF c(1,3) s]
      by (rule generate_accepts(3)) (simp_all only: gs ts c)
    then show ?thesis by blast
  next
    case t
    then have "(jtype job = ''SEO'' \<and> n = 10) \<or> (jtype job = ''META'' \<and> n = 8) \<or>
        (jtype job = ''IMAGE'' \<and> n = 5) \<or> (jtype job = ''HASHTAGS'' \<and> n = 8)" by blast
    from accepted_article [OF this] assms
    have c: "truthy (get_prop ?p ''title'')" "is_string (get_prop ?p ''content'')"
      "truthy (get_prop ?p ''content'')" "is_array ?kw" "keywords_listed n ?kw"
      "converts (get_prop ?p ''title'')" "converts ?seed"
      by simp_all
    have "\<And>w. dispatch cfg env job w =
        call_and_parse cfg env (finish env (jtype job) ?ps) (entered w)"
      unfolding dispatch_titled(2) [OF c(1,3) t]
      by (rule generate_accepts(4)) (simp_all only: gs ts c)
    then show ?thesis by blast
  qed
qed

text \<open>
  \<open>params_accepted\<close> is exactly the condition under which an attempt reaches the provider:
  when it fails, the attempt throws before any provider call.
\<close>

lemma generate_rejects:
  "\<not> truthy (get_prop ps ''seed'') \<or> \<not> is_string (get_prop ps ''seed'') \<Longrightarrow>
     \<exists>e. generateKeywords cfg env ps w = (Inl (Some e), entered w)"
  "\<not> truthy (get_prop ps ''topic'') \<or> \<not> is_string (get_prop ps ''topic'') \<or>
   \<not> is_array (param_default ps ''keywords'' (JArr [])) \<or>
   \<not> keywords_listed 10 (param_default ps ''keywords'' (JArr [])) \<or>
   \<not> converts (js_or (get_prop (param_default ps ''settings'' (JObj [])) ''tone'') (JStr ''professional'')) \<Longrightarrow>
     \<exists>e. generateArticle cfg env ps w = (Inl (Some e), entered w)"
  "\<not> truthy (get_prop (get_prop ps ''article'') ''content'') \<or>
   \<not> is_string (get_prop (get_prop ps ''article'') ''content'') \<or>
   \<not> is_array (param_default ps ''keywords'' (JArr [])) \<or>
   \<not> keywords_listed 10 (param_default ps ''keywords'' (JArr [])) \<or>
   \<not> converts (get_prop (get_prop ps ''article'') ''title'') \<or>
   \<not> converts (get_prop ps ''topic'') \<Longrightarrow>
     \<exists>e. generateSEOReview cfg env ps w = (Inl (Some e), entered w)"
  "\<not> is_array (param_default ps ''keywords'' (JArr [])) \<or>
   \<not> keywords_listed n (param_default ps ''keywords'' (JArr [])) \<or>
   (truthy (get_prop (get_prop ps ''article'') ''content'') \<and>
    \<not> is_string (get_prop (get_prop ps ''article'') ''content'')) \<or>
   \<not> converts (get_prop (get_prop ps ''article'') ''title'') \<or>
   \<not> converts (get_prop ps ''topic'') \<Longrightarrow>
     \<exists>e. titled_operation n kind name cfg env ps w = (Inl (Some e), entered w)"
  by (auto simp: generateKeywords_def generateArticle_def generateSEOReview_def
      titled_operation_def Let_def)

lemma dispatch_untitled:
  assumes "jtype job \<in> {''SEO'', ''META'', ''IMAGE'', ''HASHTAGS''}"
    and "\<not> truthy (get_prop (payload job) ''title'') \<or> \<not> truthy (get_prop (payload job) ''content'')"
  shows "dispatch cfg env job w =
           (Inl (Some (Error (jtype job @ '' job requires title and content in payload''))), w)"
proof -
  from assms(1) consider "jtype job = ''SEO''" | "jtype job = ''META''" | "jtype job = ''IMAGE''"
    | "jtype job = ''HASHTAGS''"
    by blast
  then show ?thesis
  proof cases
    case 1
    with assms(2) show ?thesis by (simp add: dispatch_def Let_def)
  next
    case 2
    with assms(2) show ?thesis by (simp add: dispatch_def Let_def)
  next
    case 3
    with assms(2) show ?thesis by (simp add: dispatch_def Let_def)
  next
    case 4
    with assms(2) show ?thesis by (simp add: dispatch_def Let_def)
  qed
qed

lemma dispatch_unsupported:
  assumes "jtype job \<notin> {''KEYWORDS'', ''ARTICLE'', ''SEO'', ''META'', ''IMAGE'', ''HASHTAGS''}"
  shows "dispatch cfg env job w = (Inl (Some (Error (''Unsupported job type: '' @ jtype job))), w)"
  using assms by (simp add: dispatch_def Let_def)

lemma dispatch_rejected:
  assumes "\<not> params_accepted job"
  shows "\<exists>e w'. dispatch cfg env job w = (Inl (Some e), w') \<and> pcalls w' = pcalls w"
proof -
  let ?p = "payload job"
  let ?seed = "js_or (js_and ?p (js_or (get_prop ?p ''seed'') (get_prop ?p ''topic''))) (JStr ''untitled'')"
  let ?kw = "js_or (get_prop ?p ''keywords'') (JArr [])"
  let ?loc = "js_or (js_or (js_and ?p (get_prop ?p ''locale'')) (default_locale cfg)) (JStr ''en'')"
  let ?st = "js_or (get_prop ?p ''settings'') (JObj [])"
  let ?art = "JObj [(''title'', get_prop ?p ''title''), (''content'', get_prop ?p ''content'')]"
  let ?ps = "JObj [(''article'', ?art), (''keywords'', ?kw), (''topic'', ?seed), (''locale'', ?loc)]"
  let ?pa = "JObj [(''keywords'', ?kw), (''topic'', ?seed), (''locale'', ?loc), (''settings'', ?st)]"
  have ts: "truthy ?seed" by (simp add: js_or_def)
  have pe: "pcalls (entered w) = pcalls w" by (simp add: entered_def)
  have gs: "get_prop ?ps ''article'' = ?art" "get_prop ?ps ''topic'' = ?seed"
    "get_prop ?art ''title'' = get_prop ?p ''title''"
    "get_prop ?art ''content'' = get_prop ?p ''content''"
    "param_default ?ps ''keywords'' (JArr []) = ?kw"
    by simp_all
  have ga: "get_prop ?pa ''topic'' = ?seed" "param_default ?pa ''keywords'' (JArr []) = ?kw"
    "param_default ?pa ''settings'' (JObj []) = ?st"
    by simp_all
  consider (k) "jtype job = ''KEYWORDS''" | (a) "jtype job = ''ARTICLE''"
    | (u) "jtype job \<in> {''SEO'', ''META'', ''IMAGE'', ''HASHTAGS''}"
        "\<not> truthy (get_prop ?p ''title'') \<or> \<not> truthy (get_prop ?p ''content'')"
    | (s) "jtype job = ''SEO''" "truthy (get_prop ?p ''title'')" "truthy (get_prop ?p ''content'')"
    | (t) n name where "(jtype job = ''META'' \<and> n = (8::nat) \<and> name = ''generateMeta'') \<or>
         (jtype job = ''IMAGE'' \<and> n = 5 \<and> name = ''generateImage'') \<or>
         (jtype job = ''HASHTAGS'' \<and> n = 8 \<and> name = ''generateHashtags'')"
        "truthy (get_prop ?p ''title'')" "truthy (get_prop ?p ''content'')"
    | (o) "jtype job \<notin> {''KEYWORDS'', ''ARTICLE'', ''SEO'', ''META'', ''IMAGE'', ''HASHTAGS''}"
    by blast
  then show ?thesis
  proof cases
    case k
    with assms have "\<not> is_string ?seed" by (simp add: accepted_by_type(1))
    then have "\<not> truthy (get_prop (JObj [(''seed'', ?seed), (''locale'', ?loc)]) ''seed'') \<or>
        \<not> is_string (get_prop (JObj [(''seed'', ?seed), (''locale'', ?loc)]) ''seed'')" by simp
    from generate_rejects(1) [OF this, of cfg env w] pe show ?thesis
      unfolding dispatch_by_type(1) [OF k] by blast
  next
    case a
    from a assms have "\<not> is_string ?seed \<or> \<not> is_array ?kw \<or> \<not> keywords_listed 10 ?kw \<or>
        \<not> converts (js_or (get_prop ?st ''tone'') (JStr ''professional''))"
      by (simp add: accepted_by_type(2))
    then have "\<not> truthy (get_prop ?pa ''topic'') \<or> \<not> is_string (get_prop ?pa ''topic'') \<or>
        \<not> is_array (param_default ?pa ''keywords'' (JArr [])) \<or>
        \<not> keywords_listed 10 (param_default ?pa ''keywords'' (JArr [])) \<or>
        \<not> converts (js_or (get_prop (param_default ?pa ''settings'' (JObj [])) ''tone'')
             (JStr ''professional''))"
      unfolding ga by blast
    from generate_rejects(2) [OF this, of cfg env w] pe show ?thesis
      unfolding dispatch_by_type(2) [OF a] by blast
  next
    case u
    from dispatch_untitled [OF u, of cfg env w] show ?thesis by simp
  next
    case s
    from s(1) have "(jtype job = ''SEO'' \<and> (10::nat) = 10) \<or> (jtype job = ''META'' \<and> (10::nat) = 8) \<or>
        (jtype job = ''IMAGE'' \<and> (10::nat) = 5) \<or> (jtype job = ''HASHTAGS'' \<and> (10::nat) = 8)" by simp
    from accepted_article [OF this] assms s(2,3)
    have "\<not> is_string (get_prop ?p ''content'') \<or> \<not> is_array ?kw \<or>
        \<not> keywords_listed 10 ?kw \<or> \<not> converts (get_prop ?p ''title'') \<or> \<not> converts ?seed"
      by simp
    then have "\<not> truthy (get_prop (get_prop ?ps ''article'') ''content'') \<or>
        \<not> is_string (get_prop (get_prop ?ps ''article'') ''content'') \<or>
        \<not> is_array (param_default ?ps ''keywords'' (JArr [])) \<or>
        \<not> keywords_listed 10 (param_default ?ps ''keywords'' (JArr [])) \<or>
        \<not> converts (get_prop (get_prop ?ps ''article'') ''title'') \<or>
        \<not> converts (get_prop ?ps ''topic'')"
      unfolding gs by blast
    from generate_rejects(3) [OF this, of cfg env w] pe show ?thesis
      unfolding dispatch_titled(1) [OF s(2,3,1)] by blast
  next
    case t
    from t(1) have "(jtype job = ''SEO'' \<and> n = 10) \<or> (jtype job = ''META'' \<and> n = 8) \<or>
        (jtype job = ''IMAGE'' \<and> n = 5) \<or> (jtype job = ''HASHTAGS'' \<and> n = 8)" by blast
    from accepted_article [OF this] assms t(2,3)
    have "\<not> is_string (get_prop ?p ''content'') \<or> \<not> is_array ?kw \<or>
        \<not> keywords_listed n ?kw \<or> \<not> converts (get_prop ?p ''title'') \<or> \<not> converts ?seed"
      by simp
    with t(3) have "\<not> is_array (param_default ?ps ''keywords'' (JArr [])) \<or>
        \<not> keywords_listed n (param_default ?ps ''keywords'' (JArr [])) \<or>
        (truthy (get_prop (get_prop ?ps ''article'') ''content'') \<and>
         \<not> is_string (get_prop (get_prop ?ps ''article'') ''content'')) \<or>
        \<not> converts (get_prop (get_prop ?ps ''article'') ''title'') \<or>
        \<not> converts (get_prop ?ps ''topic'')"
      unfolding gs by blast
    from generate_rejects(4) [OF this, of "jtype job" name cfg env w] pe show ?thesis
      unfolding dispatch_titled(2) [OF t(2,3,1)] by blast
  next
    case o
    from dispatch_unsupported [OF o, of cfg env w] show ?thesis by simp
  qed
qed

subsection \<open>Counting attempts\<close>

lemma attempts_left_step:
  assumes "a < max_attempts cfg"
  shows "attempts_left cfg a = Suc (attempts_left cfg (a + 1))"
proof -
  from assms have p: "0 < \<lceil>max_attempts cfg - a\<rceil>" by (simp add: less_ceiling_iff)
  have "\<lceil>max_attempts cfg - (a + 1)\<rceil> = \<lceil>max_attempts cfg - a\<rceil> - 1"
    by (simp add: algebra_simps flip: ceiling_diff_one)
  moreover have "nat \<lceil>max_attempts cfg - a\<rceil> = Suc (nat (\<lceil>max_attempts cfg - a\<rceil> - 1))"
    using p by arith
  ultimately show ?thesis by (simp only: attempts_left_def)
qed

lemma attempts_left_none: "\<not> a < max_attempts cfg \<Longrightarrow> attempts_left cfg a = 0"
  by (simp add: attempts_left_def ceiling_le_zero)

lemma attempts_left_whole:
  assumes "whole (max_attempts cfg)" and "whole a" and "a \<le> max_attempts cfg"
  shows "real (attempts_left cfg a) = max_attempts cfg - a"
proof -
  from assms(1) obtain m where m: "max_attempts cfg = real m" unfolding whole_iff ..
  from assms(2) obtain n where n: "a = real n" unfolding whole_iff ..
  from assms(3) have le: "n \<le> m" unfolding m n by simp
  have e: "real m - real n = real (m - n)" using le by (rule of_nat_diff [symmetric])
  have "attempts_left cfg a = nat \<lceil>real (m - n)\<rceil>" unfolding attempts_left_def m n e ..
  also have "\<dots> = m - n" by (simp only: ceiling_of_nat nat_int)
  finally show ?thesis unfolding m n e by (rule arg_cong)
qed

lemma upt_shift: "[0..<Suc n] = 0 # map Suc [0..<n]"
  by (simp only: upt_conv_Cons zero_less_Suc map_Suc_upt)

lemma backoffs_step:
  assumes "a < max_attempts cfg"
  shows "backoffs cfg a = (300 + a * 300) # backoffs cfg (a + 1)"
proof -
  have "\<And>k. a + real (Suc k) = a + 1 + real k" by simp
  then show ?thesis
    unfolding backoffs_def attempts_left_step [OF assms] upt_shift by (simp add: comp_def)
qed

lemma backoffs_none: "\<not> a < max_attempts cfg \<Longrightarrow> backoffs cfg a = []"
  by (simp add: backoffs_def attempts_left_none)

lemma attempt_sleeps_step:
  assumes "a < max_attempts cfg"
  shows "attempt_sleeps cfg a =
           retry_sleeps cfg 0 @ [300 + a * 300] @ attempt_sleeps cfg (a + 1)"
proof -
  have "\<And>k. a + real (Suc k) = a + 1 + real k" by simp
  then show ?thesis
    unfolding attempt_sleeps_def attempts_left_step [OF assms] upt_shift by (simp add: comp_def)
qed

lemma attempt_sleeps_none: "\<not> a < max_attempts cfg \<Longrightarrow> attempt_sleeps cfg a = []"
  by (simp add: attempt_sleeps_def attempts_left_none)

subsection \<open>A provider that always fails with a retriable error\<close>

lemma retry_index:
  assumes "retry_attempts cfg = real r"
  shows "real i < retry_attempts cfg \<longleftrightarrow> i < r"
    and "real i = retry_attempts cfg - 1 \<longleftrightarrow> Suc i = r"
    and "nat \<lceil>retry_attempts cfg\<rceil> = r"
proof -
  show "real i < retry_attempts cfg \<longleftrightarrow> i < r" by (simp add: assms)
  have "real i = real r - 1 \<longleftrightarrow> real (Suc i) = real r" by auto
  then show "real i = retry_attempts cfg - 1 \<longleftrightarrow> Suc i = r"
    by (simp only: assms of_nat_eq_iff)
  show "nat \<lceil>retry_attempts cfg\<rceil> = r" by (simp add: assms)
qed

lemma withRetry_transient:
  "always_transient env \<Longrightarrow> retry_attempts cfg = real r \<Longrightarrow> i < r \<Longrightarrow>
     \<exists>e. withRetry cfg env i l w =
       (Inl (Some e), w\<lparr>pcalls := pcalls w + (r - i),
                        slept := slept w @ retry_sleeps cfg i\<rparr>)"
proof (induction cfg env i l w rule: withRetry.induct)
  case (1 cfg env i lastErr w)
  note r = retry_index [OF "1.prems"(2)]
  from "1.prems"(1) obtain e where e: "provider env (pcalls w) = Rejects e" "isRetriableError (Some e)"
    by (auto simp: always_transient_def)
  have lt: "real i < retry_attempts cfg" using r(1) "1.prems"(3) by simp
  show ?case
  proof (cases "Suc i = r")
    case True
    then have "retry_sleeps cfg i = []" using r(3) by (auto simp: retry_sleeps_def)
    moreover have "r - i = 1" using True by simp
    moreover have "real i = retry_attempts cfg - 1" using r(2) True by simp
    ultimately show ?thesis using e lt
      by (subst withRetry.simps) simp
  next
    case False
    with "1.prems"(3) have lt': "Suc i < r" by simp
    have c: "\<not> (real i = retry_attempts cfg - 1 \<or> \<not> isRetriableError (Some e))"
      using False e r(2) by simp
    from "1.IH" [OF lt e(1) c "1.prems"(1,2) lt'] obtain e' where
      ih: "withRetry cfg env (Suc i) (Some e)
             (sleep (retry_base_ms cfg * 2 ^ i) (w\<lparr>pcalls := Suc (pcalls w)\<rparr>)) =
           (Inl (Some e'),
            (sleep (retry_base_ms cfg * 2 ^ i) (w\<lparr>pcalls := Suc (pcalls w)\<rparr>))
              \<lparr>pcalls := pcalls (sleep (retry_base_ms cfg * 2 ^ i) (w\<lparr>pcalls := Suc (pcalls w)\<rparr>))
                          + (r - Suc i),
               slept := slept (sleep (retry_base_ms cfg * 2 ^ i) (w\<lparr>pcalls := Suc (pcalls w)\<rparr>))
                          @ retry_sleeps cfg (Suc i)\<rparr>)"
      by blast
    have u: "[i..<r - 1] = i # [Suc i..<r - 1]"
      using lt' by (simp add: upt_conv_Cons)
    have s: "retry_sleeps cfg i = (retry_base_ms cfg * 2 ^ i) # retry_sleeps cfg (Suc i)"
      unfolding retry_sleeps_def r(3) by (subst u) simp
    have n: "Suc (pcalls w) + (r - Suc i) = pcalls w + (r - i)"
      using lt' by simp
    show ?thesis
      using e c lt ih s n by (subst withRetry.simps) (simp add: sleep_def)
  qed
qed

lemma call_and_parse_transient:
  assumes "always_transient env" "api_key cfg" "retry_attempts cfg = real r" "0 < r"
  shows "\<exists>e. call_and_parse cfg env nm w =
           (Inl (Some e), w\<lparr>pcalls := pcalls w + r, slept := slept w @ retry_sleeps cfg 0\<rparr>)"
proof -
  from withRetry_transient [OF assms(1,3,4), of None w] obtain e where
    "withRetry cfg env 0 None w =
       (Inl (Some e), w\<lparr>pcalls := pcalls w + r, slept := slept w @ retry_sleeps cfg 0\<rparr>)"
    by auto
  with assms(2) show ?thesis by (simp add: call_and_parse_def generateText_def)
qed

lemma try_attempt_transient:
  assumes "always_transient env" "api_key cfg" "retry_attempts cfg = real r" "0 < r"
    "params_accepted job"
  shows "\<exists>e. try_attempt cfg env job a w =
           (Some (Some e), w\<lparr>gcalls := Suc (gcalls w), pcalls := pcalls w + r,
                             slept := slept w @ retry_sleeps cfg 0\<rparr>)"
proof -
  from dispatch_accepted [OF assms(5), of cfg env] obtain nm where
    d: "dispatch cfg env job w = call_and_parse cfg env nm (entered w)" by blast
  from call_and_parse_transient [OF assms(1-4), of nm "entered w"] obtain e where
    "call_and_parse cfg env nm (entered w) =
       (Inl (Some e), (entered w)\<lparr>pcalls := pcalls (entered w) + r,
                        slept := slept (entered w) @ retry_sleeps cfg 0\<rparr>)" by blast
  with d show ?thesis by (simp add: try_attempt_def entered_def)
qed

lemma attempt_loop_transient:
  "always_transient env \<Longrightarrow> api_key cfg \<Longrightarrow> retry_attempts cfg = real r \<Longrightarrow> 0 < r \<Longrightarrow>
   params_accepted job \<Longrightarrow>
     \<exists>e. attempt_loop cfg env job a l w =
       (Completed (if a < max_attempts cfg then Some e else l),
        w\<lparr>gcalls := gcalls w + attempts_left cfg a,
          pcalls := pcalls w + attempts_left cfg a * r,
          slept := slept w @ attempt_sleeps cfg a\<rparr>)"
proof (induction cfg env job a l w rule: attempt_loop.induct)
  case (1 cfg env job a lastErr w)
  show ?case
  proof (cases "a < max_attempts cfg")
    case False
    then show ?thesis
      by (subst attempt_loop.simps) (simp add: attempts_left_none attempt_sleeps_none)
  next
    case True
    from try_attempt_transient [OF "1.prems"(1-5), of a w] obtain e where
      t: "try_attempt cfg env job a w =
            (Some (Some e), w\<lparr>gcalls := Suc (gcalls w), pcalls := pcalls w + r,
                              slept := slept w @ retry_sleeps cfg 0\<rparr>)" by blast
    let ?w1 = "w\<lparr>gcalls := Suc (gcalls w), pcalls := pcalls w + r,
                  slept := slept w @ retry_sleeps cfg 0\<rparr>"
    let ?w2 = "sleep (300 + a * 300) ?w1"
    from "1.IH" [OF True t [symmetric] refl refl "1.prems"(1-5)] obtain e' where
      ih: "attempt_loop cfg env job (a + 1) (Some e) ?w2 =
         (Completed (if a + 1 < max_attempts cfg then Some e' else Some e),
          ?w2\<lparr>gcalls := gcalls ?w2 + attempts_left cfg (a + 1),
              pcalls := pcalls ?w2 + attempts_left cfg (a + 1) * r,
              slept := slept ?w2 @ attempt_sleeps cfg (a + 1)\<rparr>)"
      by blast
    have al: "attempt_loop cfg env job a lastErr w = attempt_loop cfg env job (a + 1) (Some e) ?w2"
      using True t by (subst attempt_loop.simps) simp
    have "\<exists>x. (if a + 1 < max_attempts cfg then Some e' else Some e) = Some x" by simp
    then obtain x where x: "(if a + 1 < max_attempts cfg then Some e' else Some e) = Some x" ..
    have "attempt_loop cfg env job a lastErr w =
       (Completed (Some x),
        w\<lparr>gcalls := gcalls w + attempts_left cfg a,
          pcalls := pcalls w + attempts_left cfg a * r,
          slept := slept w @ attempt_sleeps cfg a\<rparr>)"
      unfolding al ih x attempts_left_step [OF True] attempt_sleeps_step [OF True]
      by (simp add: sleep_def)
    with True show ?thesis by auto
  qed
qed

subsection \<open>The document of the claimed job after a tick\<close>

lemma claimed_in_store:
  assumes "claimOldestPending inst now s = (Some job, s1)"
  shows "job \<in> set s1"
proof -
  from claim_Some [OF assms] obtain j where "j \<in> set s" "job = claim_update inst now j"
    "s1 = replace_job job s" by blast
  then show ?thesis using replace_job_mem [of j s job] by simp
qed

lemma claimed_docs:
  assumes "claimOldestPending inst now s = (Some job, s1)"
    and "k \<in> set s1" and "job_id k = job_id job"
  shows "k = job"
proof -
  from claim_Some [OF assms(1)] have "s1 = replace_job job s" by blast
  with assms(2) have "k \<in> (\<lambda>k0. if job_id k0 = job_id job then job else k0) ` set s"
    by (simp add: replace_job_def)
  then obtain k0 where "k = (if job_id k0 = job_id job then job else k0)" by (rule imageE)
  with assms(3) show ?thesis by (cases "job_id k0 = job_id job") simp_all
qed

lemma update_job_hits:
  assumes "job \<in> set s" and "job_id (f job) = job_id job"
  shows "\<exists>k \<in> set (update_job (job_id job) f s). job_id k = job_id job"
proof -
  have "f job \<in> (\<lambda>k. if job_id k = job_id job then f k else k) ` set s"
    using assms(1) by (rule rev_image_eqI) simp
  then have "f job \<in> set (update_job (job_id job) f s)" by (simp add: update_job_def)
  with assms(2) show ?thesis by blast
qed

lemma update_job_docs:
  assumes "k \<in> set (update_job i f s)" and "job_id k = i"
  shows "\<exists>k0 \<in> set s. job_id k0 = i \<and> k = f k0"
proof -
  from assms(1) have "k \<in> (\<lambda>k0. if job_id k0 = i then f k0 else k0) ` set s"
    by (simp add: update_job_def)
  then obtain k0 where k0: "k0 \<in> set s" "k = (if job_id k0 = i then f k0 else k0)"
    by (auto elim: imageE)
  show ?thesis
  proof (cases "job_id k0 = i")
    case True
    with k0 show ?thesis by auto
  next
    case False
    with k0 assms(2) show ?thesis by simp
  qed
qed

lemma update_job_failed:
  "\<forall>k \<in> set (update_job i (failed_update cfg e) s). job_id k = i \<longrightarrow>
     status k = FAILED \<and> attempt k = max_attempts cfg"
proof (intro ballI impI)
  fix k assume "k \<in> set (update_job i (failed_update cfg e) s)" "job_id k = i"
  from update_job_docs [OF this] obtain k0 where "k = failed_update cfg e k0" by blast
  then show "status k = FAILED \<and> attempt k = max_attempts cfg" by (simp add: failed_update_def)
qed

lemma processOne_exhausted:
  assumes "\<not> busy w" and "store_fails env (scalls w) = None"
    and "store_fails env (Suc (scalls w)) = None"
    and "claimOldestPending (instance_id cfg) now (store w) = (Some job, s1)"
    and "attempt_loop cfg env job (attempt job) None
           (w\<lparr>busy := True, scalls := Suc (scalls w), store := s1\<rparr>) = (Completed (Some e), w2)"
    and "scalls w2 = Suc (scalls w)" and "store w2 = s1"
  shows "processOne cfg env now w =
           w2\<lparr>scalls := Suc (Suc (scalls w)),
              store := update_job (job_id job) (failed_update cfg e) s1, busy := False\<rparr>"
proof -
  have c: "findOneAndUpdate cfg env now (w\<lparr>busy := True\<rparr>) =
             (Inr (Some job), w\<lparr>busy := True, scalls := Suc (scalls w), store := s1\<rparr>)"
    using assms(2,4) by (simp add: findOneAndUpdate_def)
  have u: "updateOne env (job_id job) (failed_update cfg e) w2 =
             (None, w2\<lparr>scalls := Suc (Suc (scalls w)),
                       store := update_job (job_id job) (failed_update cfg e) s1\<rparr>)"
    unfolding updateOne_def assms(6) assms(7) assms(3) by simp
  show ?thesis
    unfolding processOne_def c using assms(1) by (simp add: assms(5) u)
qed

lemma processOne_transient:
  assumes "\<not> busy w" and "store_fails env (scalls w) = None"
    and "store_fails env (Suc (scalls w)) = None"
    and "claimOldestPending (instance_id cfg) now (store w) = (Some job, s1)"
    and "attempt job < max_attempts cfg" and "params_accepted job"
    and "api_key cfg" and "retry_attempts cfg = real r" and "0 < r"
    and "always_transient env"
  shows "\<exists>e. processOne cfg env now w =
           w\<lparr>gcalls := gcalls w + attempts_left cfg (attempt job),
             pcalls := pcalls w + attempts_left cfg (attempt job) * r,
             slept := slept w @ attempt_sleeps cfg (attempt job),
             scalls := Suc (Suc (scalls w)),
             store := update_job (job_id job) (failed_update cfg e) s1, busy := False\<rparr>"
proof -
  let ?w1 = "w\<lparr>busy := True, scalls := Suc (scalls w), store := s1\<rparr>"
  let ?w2 = "?w1\<lparr>gcalls := gcalls ?w1 + attempts_left cfg (attempt job),
              pcalls := pcalls ?w1 + attempts_left cfg (attempt job) * r,
              slept := slept ?w1 @ attempt_sleeps cfg (attempt job)\<rparr>"
  from attempt_loop_transient [OF assms(10,7,8,9,6), of "attempt job" None ?w1] assms(5)
  obtain e where l: "attempt_loop cfg env job (attempt job) None ?w1 = (Completed (Some e), ?w2)"
    by auto
  have "processOne cfg env now w =
          ?w2\<lparr>scalls := Suc (Suc (scalls w)),
               store := update_job (job_id job) (failed_update cfg e) s1, busy := False\<rparr>"
    by (rule processOne_exhausted [OF assms(1-4) l]) simp_all
  then show ?thesis by auto
qed

text \<open>
  C2 (retry bound), as the code has it. Take a tick that claims a job with attempt 0 whose
  payload passes all that precedes the provider call (the parameter checks and the
  construction of the prompt), with the API key set, the two retry ceilings positive
  whole numbers, the store answering, and a provider that throws a retriable error at
  every call. The worker calls the typed operation exactly \<^verbatim>\<open>maxAttempts\<close> times; each of
  these calls invokes the provider \<^verbatim>\<open>AI_RETRY_ATTEMPTS\<close> times through \<^verbatim>\<open>withRetry\<close>, so the
  provider is invoked \<^verbatim>\<open>maxAttempts * AI_RETRY_ATTEMPTS\<close> times in total; then the job is
  stored FAILED with attempt equal to \<^verbatim>\<open>maxAttempts\<close>.
\<close>

theorem retry_bound:
  assumes "\<not> busy w" and "store_fails env (scalls w) = None"
    and "store_fails env (Suc (scalls w)) = None"
    and "claimOldestPending (instance_id cfg) now (store w) = (Some job, s1)"
    and "attempt job = 0" and "params_accepted job"
    and "api_key cfg" and "whole (retry_attempts cfg)" and "0 < retry_attempts cfg"
    and "whole (max_attempts cfg)" and "0 < max_attempts cfg"
    and "always_transient env"
  shows "real (gcalls (processOne cfg env now w)) = real (gcalls w) + max_attempts cfg \<and>
         real (pcalls (processOne cfg env now w)) =
           real (pcalls w) + max_attempts cfg * retry_attempts cfg \<and>
         (\<exists>k \<in> set (store (processOne cfg env now w)). job_id k = job_id job) \<and>
         (\<forall>k \<in> set (store (processOne cfg env now w)). job_id k = job_id job \<longrightarrow>
            status k = FAILED \<and> attempt k = max_attempts cfg)"
proof -
  from assms(8) obtain r where r: "retry_attempts cfg = real r" unfolding whole_iff ..
  with assms(9) have r0: "0 < r" by simp
  have lt: "attempt job < max_attempts cfg" using assms(5,11) by simp
  have "whole (attempt job)" using assms(5) by (simp add: whole_def)
  from attempts_left_whole [OF assms(10) this] lt
  have n: "real (attempts_left cfg (attempt job)) = max_attempts cfg" using assms(5) by simp
  from processOne_transient [OF assms(1-4) lt assms(6,7) r r0 assms(12)] obtain e where
    p: "processOne cfg env now w =
           w\<lparr>gcalls := gcalls w + attempts_left cfg (attempt job),
             pcalls := pcalls w + attempts_left cfg (attempt job) * r,
             slept := slept w @ attempt_sleeps cfg (attempt job),
             scalls := Suc (Suc (scalls w)),
             store := update_job (job_id job) (failed_update cfg e) s1, busy := False\<rparr>" by blast
  have g: "real (gcalls (processOne cfg env now w)) = real (gcalls w) + max_attempts cfg"
    unfolding p using n by simp
  have c: "real (pcalls (processOne cfg env now w)) =
      real (pcalls w) + max_attempts cfg * retry_attempts cfg"
    unfolding p r using n by simp
  have i: "job \<in> set s1" using assms(4) by (rule claimed_in_store)
  have "job_id (failed_update cfg e job) = job_id job" by (simp add: failed_update_def)
  with i have h: "\<exists>k \<in> set (update_job (job_id job) (failed_update cfg e) s1). job_id k = job_id job"
    by (rule update_job_hits)
  from p h update_job_failed [of "job_id job" cfg e s1] g c show ?thesis by simp
qed

lemma retriable_unavailable: "isRetriableError (Some unavailable)"
  by (simp add: isRetriableError_def unavailable_def new_error_def error_text_def toLowerCase_def
      lower_char_def js_or_def Let_def)

lemma always_transient_unavailable: "always_transient env_unavailable"
  using retriable_unavailable by (simp add: always_transient_def env_unavailable_def)

lemma claim_job0:
  "claimOldestPending (instance_id default_config) 5000 (store (idle [job0])) =
     (Some (claim_update ''worker-1'' 5000 job0), [claim_update ''worker-1'' 5000 job0])"
  by (simp add: claimOldestPending_def claimable_def job0_def allowed_types_def
      claim_update_def replace_job_def Let_def default_config_def idle_def)

lemma accepted_job0: "params_accepted (claim_update ''worker-1'' 5000 job0)"
  by (simp add: params_accepted_def claim_update_def job0_def Let_def js_or_def js_and_def)

lemma whole_defaults:
  "whole (max_attempts default_config)" "whole (retry_attempts default_config)"
  "0 < max_attempts default_config" "0 < retry_attempts default_config"
  "retry_attempts default_config = real 3"
  by (simp_all add: whole_def default_config_def)

theorem retry_bound_witness:
  "always_transient env_unavailable \<and> params_accepted (claim_update ''worker-1'' 5000 job0) \<and>
   attempt (claim_update ''worker-1'' 5000 job0) = 0 \<and>
   whole (max_attempts default_config) \<and> whole (retry_attempts default_config) \<and>
   gcalls (processOne default_config env_unavailable 5000 (idle [job0])) = 3 \<and>
   pcalls (processOne default_config env_unavailable 5000 (idle [job0])) = 9"
proof -
  have h1: "\<not> busy (idle [job0])" by (simp add: idle_def)
  have h2: "store_fails env_unavailable (scalls (idle [job0])) = None"
    by (simp add: env_unavailable_def)
  have h3: "store_fails env_unavailable (Suc (scalls (idle [job0]))) = None"
    by (simp add: env_unavailable_def)
  have h5: "attempt (claim_update ''worker-1'' 5000 job0) = 0"
    by (simp add: claim_update_def job0_def)
  have h7: "api_key default_config" by (simp add: default_config_def)
  note t = retry_bound [OF h1 h2 h3 claim_job0 h5 accepted_job0 h7 whole_defaults(2,4,1,3)
      always_transient_unavailable]
  from t have "real (gcalls (processOne default_config env_unavailable 5000 (idle [job0]))) = real 3"
    by (simp add: idle_def default_config_def)
  then have g: "gcalls (processOne default_config env_unavailable 5000 (idle [job0])) = 3"
    by (simp only: of_nat_eq_iff)
  from t have "real (pcalls (processOne default_config env_unavailable 5000 (idle [job0]))) = real 9"
    by (simp add: idle_def default_config_def)
  then have p: "pcalls (processOne default_config env_unavailable 5000 (idle [job0])) = 9"
    by (simp only: of_nat_eq_iff)
  from g p show ?thesis
    using always_transient_unavailable accepted_job0 h5 whole_defaults(1,2) by simp
qed

text \<open>
  With the defaults (three attempts of the worker, three tries of the adapter) and a
  provider that always answers 503, the provider is invoked nine times, not three.
\<close>

theorem retry_bound_counterexample:
  "attempt job0 = 0 \<and> isRetriableError (Some unavailable) \<and>
   provider env_unavailable 0 = Rejects unavailable \<and>
   max_attempts default_config = 3 \<and>
   pcalls (idle [job0]) = 0 \<and>
   pcalls (processOne default_config env_unavailable 5000 (idle [job0])) = 9 \<and>
   real (pcalls (processOne default_config env_unavailable 5000 (idle [job0]))) \<noteq>
     max_attempts default_config"
proof -
  have h1: "\<not> busy (idle [job0])" by (simp add: idle_def)
  have h2: "store_fails env_unavailable (scalls (idle [job0])) = None"
    by (simp add: env_unavailable_def)
  have h3: "store_fails env_unavailable (Suc (scalls (idle [job0]))) = None"
    by (simp add: env_unavailable_def)
  have h5: "attempt (claim_update ''worker-1'' 5000 job0) < max_attempts default_config"
    by (simp add: claim_update_def job0_def default_config_def)
  have h7: "api_key default_config" by (simp add: default_config_def)
  have a: "attempts_left default_config (attempt (claim_update ''worker-1'' 5000 job0)) = 3"
    by (simp add: attempts_left_def claim_update_def job0_def default_config_def)
  from processOne_transient [OF h1 h2 h3 claim_job0 h5 accepted_job0 h7 whole_defaults(5) _
      always_transient_unavailable]
  have "pcalls (processOne default_config env_unavailable 5000 (idle [job0])) = 9"
    unfolding a by (auto simp: idle_def)
  then show ?thesis
    using retriable_unavailable
    by (simp add: job0_def env_unavailable_def default_config_def idle_def)
qed

subsection \<open>A job without its article\<close>

lemma dispatch_precondition:
  assumes "lacks_article job"
  shows "dispatch cfg env job w = (Inl (Some (precondition_error job)), w)"
  using assms dispatch_untitled [of job cfg env w]
  by (simp add: lacks_article_def precondition_error_def)

lemma try_attempt_precondition:
  assumes "lacks_article job"
  shows "try_attempt cfg env job a w = (Some (Some (precondition_error job)), w)"
  using dispatch_precondition [OF assms] by (simp add: try_attempt_def)

lemma attempt_loop_precondition:
  "lacks_article job \<Longrightarrow>
     attempt_loop cfg env job a l w =
       (Completed (if a < max_attempts cfg then Some (precondition_error job) else l),
        w\<lparr>slept := slept w @ backoffs cfg a\<rparr>)"
proof (induction cfg env job a l w rule: attempt_loop.induct)
  case (1 cfg env job a lastErr w)
  show ?case
  proof (cases "a < max_attempts cfg")
    case False
    then show ?thesis by (subst attempt_loop.simps) (simp add: backoffs_none)
  next
    case True
    note t = try_attempt_precondition [OF "1.prems", of cfg env a w]
    have al: "attempt_loop cfg env job a lastErr w =
        attempt_loop cfg env job (a + 1) (Some (precondition_error job)) (sleep (300 + a * 300) w)"
      using True t by (subst attempt_loop.simps) simp
    from "1.IH" [OF True t [symmetric] refl refl "1.prems"]
    have ih: "attempt_loop cfg env job (a + 1) (Some (precondition_error job)) (sleep (300 + a * 300) w) =
        (Completed (if a + 1 < max_attempts cfg then Some (precondition_error job)
                    else Some (precondition_error job)),
         (sleep (300 + a * 300) w)\<lparr>slept := slept (sleep (300 + a * 300) w) @ backoffs cfg (a + 1)\<rparr>)" .
    show ?thesis
      unfolding al ih backoffs_step [OF True] using True by (simp add: sleep_def)
  qed
qed

lemma processOne_precondition:
  assumes "\<not> busy w" and "store_fails env (scalls w) = None"
    and "store_fails env (Suc (scalls w)) = None"
    and "claimOldestPending (instance_id cfg) now (store w) = (Some job, s1)"
    and "lacks_article job" and "attempt job < max_attempts cfg"
  shows "processOne cfg env now w =
           w\<lparr>slept := slept w @ backoffs cfg (attempt job),
             scalls := Suc (Suc (scalls w)),
             store := update_job (job_id job) (failed_update cfg (precondition_error job)) s1,
             busy := False\<rparr>"
proof -
  let ?w1 = "w\<lparr>busy := True, scalls := Suc (scalls w), store := s1\<rparr>"
  have l: "attempt_loop cfg env job (attempt job) None ?w1 =
             (Completed (Some (precondition_error job)),
              ?w1\<lparr>slept := slept ?w1 @ backoffs cfg (attempt job)\<rparr>)"
    using attempt_loop_precondition [OF assms(5), of cfg env "attempt job" None ?w1] assms(6)
    by simp
  have "processOne cfg env now w =
          (?w1\<lparr>slept := slept ?w1 @ backoffs cfg (attempt job)\<rparr>)
            \<lparr>scalls := Suc (Suc (scalls w)),
             store := update_job (job_id job) (failed_update cfg (precondition_error job)) s1,
             busy := False\<rparr>"
    by (rule processOne_exhausted [OF assms(1-4) l]) simp_all
  then show ?thesis by simp
qed

text \<open>
  C3 (precondition failure), as the code has it. Take a tick that claims an SEO, META,
  IMAGE or HASHTAGS job whose payload lacks \<^verbatim>\<open>title\<close> or \<^verbatim>\<open>content\<close>, with attempts left and the
  store answering. No provider call and no call of a typed operation is made. The
  precondition error is thrown again at every remaining attempt (the indices \<open>a\<close>, \<open>a + 1\<close>,
  ... below \<^verbatim>\<open>maxAttempts\<close>, from the stored attempt \<open>a\<close> on), and after each the worker waits
  its backoff of 300 + 300 times the index ms; after the last one the job is stored
  FAILED with attempt equal to \<^verbatim>\<open>maxAttempts\<close> and that error.
\<close>

theorem precondition_failure:
  assumes "\<not> busy w" and "store_fails env (scalls w) = None"
    and "store_fails env (Suc (scalls w)) = None"
    and "claimOldestPending (instance_id cfg) now (store w) = (Some job, s1)"
    and "lacks_article job" and "attempt job < max_attempts cfg"
  shows "pcalls (processOne cfg env now w) = pcalls w \<and>
         gcalls (processOne cfg env now w) = gcalls w \<and>
         slept (processOne cfg env now w) =
           slept w @ map (\<lambda>k. 300 + (attempt job + real k) * 300)
                       [0..<attempts_left cfg (attempt job)] \<and>
         store (processOne cfg env now w) =
           update_job (job_id job) (failed_update cfg (precondition_error job)) s1 \<and>
         (\<exists>k \<in> set (store (processOne cfg env now w)). job_id k = job_id job) \<and>
         (\<forall>k \<in> set (store (processOne cfg env now w)). job_id k = job_id job \<longrightarrow>
            status k = FAILED \<and> attempt k = max_attempts cfg)"
proof -
  note p = processOne_precondition [OF assms]
  have i: "job \<in> set s1" using assms(4) by (rule claimed_in_store)
  have "job_id (failed_update cfg (precondition_error job) job) = job_id job"
    by (simp add: failed_update_def)
  with i have h: "\<exists>k \<in> set (update_job (job_id job) (failed_update cfg (precondition_error job)) s1).
      job_id k = job_id job"
    by (rule update_job_hits)
  from p h update_job_failed [of "job_id job" cfg "precondition_error job" s1] show ?thesis
    by (simp add: backoffs_def)
qed

lemma claim_job_seo:
  "claimOldestPending (instance_id default_config) 5000 (store (idle [job_seo])) =
     (Some (claim_update ''worker-1'' 5000 job_seo), [claim_update ''worker-1'' 5000 job_seo])"
  by (simp add: claimOldestPending_def claimable_def job_seo_def job0_def allowed_types_def
      claim_update_def replace_job_def Let_def default_config_def idle_def)

lemma lacks_job_seo: "lacks_article (claim_update ''worker-1'' 5000 job_seo)"
  by (simp add: lacks_article_def claim_update_def job_seo_def job0_def)

lemma backoffs_defaults:
  "attempts_left default_config 0 = 3"
  "map (\<lambda>k. 300 + (0 + real k) * 300) [0..<3] = [300, 600, 900]"
proof -
  show "attempts_left default_config 0 = 3" by (simp add: attempts_left_def default_config_def)
  have "[0..<3] = [0, 1, 2 :: nat]" by (simp add: upt_rec)
  then show "map (\<lambda>k. 300 + (0 + real k) * 300) [0..<3] = [300, 600, 900]" by simp
qed

theorem precondition_failure_witness:
  "lacks_article (claim_update ''worker-1'' 5000 job_seo) \<and>
   attempt (claim_update ''worker-1'' 5000 job_seo) < max_attempts default_config \<and>
   pcalls (processOne default_config env_unavailable 5000 (idle [job_seo])) = 0 \<and>
   gcalls (processOne default_config env_unavailable 5000 (idle [job_seo])) = 0 \<and>
   slept (processOne default_config env_unavailable 5000 (idle [job_seo])) = [300, 600, 900]"
proof -
  have h1: "\<not> busy (idle [job_seo])" by (simp add: idle_def)
  have h2: "store_fails env_unavailable (scalls (idle [job_seo])) = None"
    by (simp add: env_unavailable_def)
  have h3: "store_fails env_unavailable (Suc (scalls (idle [job_seo]))) = None"
    by (simp add: env_unavailable_def)
  have h6: "attempt (claim_update ''worker-1'' 5000 job_seo) < max_attempts default_config"
    by (simp add: claim_update_def job_seo_def job0_def default_config_def)
  have a: "attempt (claim_update ''worker-1'' 5000 job_seo) = 0"
    by (simp add: claim_update_def job_seo_def job0_def)
  note t = precondition_failure [OF h1 h2 h3 claim_job_seo lacks_job_seo h6]
  from t have "pcalls (processOne default_config env_unavailable 5000 (idle [job_seo])) = 0"
    by (simp add: idle_def)
  moreover from t have "gcalls (processOne default_config env_unavailable 5000 (idle [job_seo])) = 0"
    by (simp add: idle_def)
  moreover from t have "slept (processOne default_config env_unavailable 5000 (idle [job_seo]))
      = [300, 600, 900]"
    unfolding a backoffs_defaults by (simp add: idle_def)
  ultimately show ?thesis using lacks_job_seo h6 by simp
qed

text \<open>
  With the defaults, an SEO job with no title and no content is tried three times, and the
  worker waits 300, 600 and 900 ms before it is marked FAILED.
\<close>

theorem precondition_failure_counterexample:
  "jtype job_seo = ''SEO'' \<and> get_prop (payload job_seo) ''title'' = JUndefined \<and>
   get_prop (payload job_seo) ''content'' = JUndefined \<and>
   slept (idle [job_seo]) = [] \<and>
   slept (processOne default_config env_unavailable 5000 (idle [job_seo])) = [300, 600, 900] \<and>
   slept (processOne default_config env_unavailable 5000 (idle [job_seo])) \<noteq> slept (idle [job_seo])"
proof -
  have h1: "\<not> busy (idle [job_seo])" by (simp add: idle_def)
  have h2: "store_fails env_unavailable (scalls (idle [job_seo])) = None"
    by (simp add: env_unavailable_def)
  have h3: "store_fails env_unavailable (Suc (scalls (idle [job_seo]))) = None"
    by (simp add: env_unavailable_def)
  have h6: "attempt (claim_update ''worker-1'' 5000 job_seo) < max_attempts default_config"
    by (simp add: claim_update_def job_seo_def job0_def default_config_def)
  have a: "attempt (claim_update ''worker-1'' 5000 job_seo) = 0"
    by (simp add: claim_update_def job_seo_def job0_def)
  from processOne_precondition [OF h1 h2 h3 claim_job_seo lacks_job_seo h6]
  have "slept (processOne default_config env_unavailable 5000 (idle [job_seo])) = [300, 600, 900]"
    unfolding a backoffs_def backoffs_defaults by (simp add: idle_def)
  then show ?thesis by (simp add: job_seo_def job0_def idle_def)
qed

subsection \<open>What a tick stores in the document it claimed\<close>

lemma typed_calls:
  "generateKeywords cfg env ps w = (r, w') \<Longrightarrow> gcalls w' = Suc (gcalls w)"
  "generateArticle cfg env ps w = (r, w') \<Longrightarrow> gcalls w' = Suc (gcalls w)"
  "generateSEOReview cfg env ps w = (r, w') \<Longrightarrow> gcalls w' = Suc (gcalls w)"
  "titled_operation n kind name cfg env ps w = (r, w') \<Longrightarrow> gcalls w' = Suc (gcalls w)"
  by (auto simp: generateKeywords_def generateArticle_def generateSEOReview_def
      titled_operation_def Let_def entered_def split: if_splits dest!: call_and_parse_frame)

lemma dispatch_calls:
  assumes "dispatch cfg env job w = (r, w')" and "jtype job \<in> set allowed_types"
    and "\<not> lacks_article job"
  shows "gcalls w' = Suc (gcalls w)"
proof -
  from assms(2) consider (k) "jtype job = ''KEYWORDS''" | (a) "jtype job = ''ARTICLE''"
    | (s) "jtype job = ''SEO''"
    | (t) n name where "(jtype job = ''META'' \<and> n = (8::nat) \<and> name = ''generateMeta'') \<or>
         (jtype job = ''IMAGE'' \<and> n = 5 \<and> name = ''generateImage'') \<or>
         (jtype job = ''HASHTAGS'' \<and> n = 8 \<and> name = ''generateHashtags'')"
    by (auto simp: allowed_types_def)
  then show ?thesis
  proof cases
    case k
    from assms(1) show ?thesis unfolding dispatch_by_type(1) [OF k] by (rule typed_calls(1))
  next
    case a
    from assms(1) show ?thesis unfolding dispatch_by_type(2) [OF a] by (rule typed_calls(2))
  next
    case s
    with assms(3) have c: "truthy (get_prop (payload job) ''title'')"
      "truthy (get_prop (payload job) ''content'')"
      by (auto simp: lacks_article_def)
    from assms(1) show ?thesis unfolding dispatch_titled(1) [OF c s] by (rule typed_calls(3))
  next
    case t
    with assms(3) have c: "truthy (get_prop (payload job) ''title'')"
      "truthy (get_prop (payload job) ''content'')"
      by (auto simp: lacks_article_def)
    from assms(1) show ?thesis unfolding dispatch_titled(2) [OF c t] by (rule typed_calls(4))
  qed
qed

lemma updateOne_cases:
  assumes "updateOne env i f w = (u, w1)"
  shows "gcalls w1 = gcalls w \<and> pcalls w1 = pcalls w \<and> busy w1 = busy w \<and>
         scalls w1 = Suc (scalls w) \<and>
         (u = None \<longrightarrow> store_fails env (scalls w) = None \<and> store w1 = update_job i f (store w)) \<and>
         (u \<noteq> None \<longrightarrow> store w1 = store w)"
  using assms by (auto simp: updateOne_def split: option.splits)

lemma try_attempt_cases:
  assumes "try_attempt cfg env job a w = (t, w1)"
  shows "(jtype job \<in> set allowed_types \<and> \<not> lacks_article job \<longrightarrow> gcalls w1 = Suc (gcalls w)) \<and>
         (t = None \<longrightarrow> (\<exists>r. store w1 = update_job (job_id job) (success_update a r) (store w))) \<and>
         (t \<noteq> None \<longrightarrow> store w1 = store w)"
proof -
  obtain d wd where d: "dispatch cfg env job w = (d, wd)" by (cases "dispatch cfg env job w")
  from dispatch_frame [OF d] have f: "store wd = store w" by (simp add: same_frame_def)
  note g = dispatch_calls [OF d]
  show ?thesis
  proof (cases d)
    case (Inl th)
    with assms d have "t = Some th" "w1 = wd" by (simp_all add: try_attempt_def)
    with f g show ?thesis by simp
  next
    case (Inr r)
    obtain u w2 where u: "updateOne env (job_id job) (success_update a r) wd = (u, w2)"
      by (cases "updateOne env (job_id job) (success_update a r) wd")
    note c = updateOne_cases [OF u]
    show ?thesis
    proof (cases u)
      case None
      with assms d Inr u have "t = None" "w1 = w2" by (simp_all add: try_attempt_def)
      with c None f g show ?thesis by auto
    next
      case (Some e)
      with assms d Inr u have "t = Some (Some e)" "w1 = w2" by (simp_all add: try_attempt_def)
      with c Some f g show ?thesis by auto
    qed
  qed
qed

text \<open>
  The loop leaves the store as it is, or it ends with the success write of the attempt
  of some index \<open>a + n\<close> below the ceiling, the \<open>n + 1\<close>-th attempt it made.
\<close>

lemma attempt_loop_outcome:
  "attempt_loop cfg env job a l w = (x, w') \<Longrightarrow>
     store w' = store w \<and> (x = Completed None \<longrightarrow> l = None \<and> \<not> a < max_attempts cfg) \<or>
     (\<exists>r n. x = Completed None \<and> a + real n < max_attempts cfg \<and>
        store w' = update_job (job_id job) (success_update (a + real n) r) (store w) \<and>
        (jtype job \<in> set allowed_types \<and> \<not> lacks_article job \<longrightarrow>
           gcalls w' = gcalls w + Suc n))"
proof (induction cfg env job a l w arbitrary: x w' rule: attempt_loop.induct)
  case (1 cfg env job a lastErr w)
  show ?case
  proof (cases "a < max_attempts cfg")
    case False
    with "1.prems" have "x = Completed lastErr" "w' = w" by (subst (asm) attempt_loop.simps; simp)+
    with False show ?thesis by auto
  next
    case True
    obtain t w1 where t: "try_attempt cfg env job a w = (t, w1)"
      by (cases "try_attempt cfg env job a w")
    note c = try_attempt_cases [OF t]
    show ?thesis
    proof (cases t)
      case None
      with "1.prems" True t have xw: "x = Completed None" "w' = w1"
        by (subst (asm) attempt_loop.simps; simp)+
      from c None obtain r where
        r: "store w1 = update_job (job_id job) (success_update a r) (store w)" by auto
      have "x = Completed None \<and> a + real 0 < max_attempts cfg \<and>
        store w' = update_job (job_id job) (success_update (a + real 0) r) (store w) \<and>
        (jtype job \<in> set allowed_types \<and> \<not> lacks_article job \<longrightarrow>
           gcalls w' = gcalls w + Suc 0)"
        using xw r True c by simp
      then show ?thesis by blast
    next
      case (Some th)
      with c have s1: "store w1 = store w" by simp
      show ?thesis
      proof (cases th)
        case None
        with "1.prems" True t Some have "x = Escaped (TypeError ''Cannot read properties of undefined (reading 'message')'')"
          "w' = w1"
          by (subst (asm) attempt_loop.simps; simp)+
        with s1 show ?thesis by simp
      next
        case (Some err)
        with "1.prems" True t \<open>t = Some th\<close>
        have al: "attempt_loop cfg env job (a + 1) (Some err) (sleep (300 + a * 300) w1) = (x, w')"
          by (subst (asm) attempt_loop.simps) simp
        from "1.IH" [OF True t [symmetric] \<open>t = Some th\<close> Some al]
        consider (same) "store w' = store (sleep (300 + a * 300) w1)" "x \<noteq> Completed None"
          | (succ) r n where "x = Completed None" "a + 1 + real n < max_attempts cfg"
              "store w' = update_job (job_id job) (success_update (a + 1 + real n) r)
                 (store (sleep (300 + a * 300) w1))"
              "jtype job \<in> set allowed_types \<and> \<not> lacks_article job \<longrightarrow>
                 gcalls w' = gcalls (sleep (300 + a * 300) w1) + Suc n"
          by auto
        then show ?thesis
        proof cases
          case same
          with s1 show ?thesis by (simp add: sleep_def)
        next
          case succ
          have e: "a + 1 + real n = a + real (Suc n)" by simp
          have "x = Completed None \<and> a + real (Suc n) < max_attempts cfg \<and>
            store w' = update_job (job_id job) (success_update (a + real (Suc n)) r) (store w) \<and>
            (jtype job \<in> set allowed_types \<and> \<not> lacks_article job \<longrightarrow>
               gcalls w' = gcalls w + Suc (Suc n))"
            using succ s1 c unfolding e by (simp add: sleep_def)
          then show ?thesis by blast
        qed
      qed
    qed
  qed
qed
lemma error_type [simp]: "get_prop (toJobError cfg err ty) ''type'' = JStr ty"
  by (simp add: toJobError_def Let_def)

lemma mark_uncaught_docs:
  assumes "k \<in> set (store (mark_uncaught cfg env job err w))" and "job_id k = job_id job"
  shows "k \<in> set (store w) \<or>
         (\<exists>k0 \<in> set (store w). job_id k0 = job_id job \<and> k = uncaught_update cfg err k0)"
proof -
  obtain u w1 where u: "updateOne env (job_id job) (uncaught_update cfg err) w = (u, w1)"
    by (cases "updateOne env (job_id job) (uncaught_update cfg err) w")
  then have m: "mark_uncaught cfg env job err w = w1" by (simp add: mark_uncaught_def)
  note c = updateOne_cases [OF u]
  show ?thesis
  proof (cases u)
    case None
    with c assms m have "k \<in> set (update_job (job_id job) (uncaught_update cfg err) (store w))"
      by simp
    from update_job_docs [OF this assms(2)] show ?thesis by blast
  next
    case (Some e)
    with c assms m show ?thesis by simp
  qed
qed

lemma mark_uncaught_calls: "gcalls (mark_uncaught cfg env job err w) = gcalls w"
  by (simp add: mark_uncaught_def updateOne_def split: option.splits)

lemma after_loop_calls: "gcalls (after_loop cfg env job (x, w2)) = gcalls w2"
  by (auto simp: after_loop_def mark_uncaught_calls updateOne_def
      split: loop_exit.splits option.splits)

text \<open>
  After the loop, a document with the identifier of the claimed job is as the loop left
  it, or the loop did not end with a success and the document is one that the loop left,
  rewritten by the exhaustion write or by the write of the outer catch.
\<close>

lemma after_loop_docs:
  assumes "k \<in> set (store (after_loop cfg env job (x, w2)))" and "job_id k = job_id job"
  shows "k \<in> set (store w2) \<or>
         (x \<noteq> Completed None \<and>
          (\<exists>k0 \<in> set (store w2). job_id k0 = job_id job \<and>
             ((\<exists>e. k = failed_update cfg e k0) \<or> (\<exists>e. k = uncaught_update cfg e k0))))"
proof (cases x)
  case (Escaped err)
  with assms(1) have "k \<in> set (store (mark_uncaught cfg env job err w2))"
    by (simp add: after_loop_def)
  from mark_uncaught_docs [OF this assms(2)] Escaped show ?thesis by blast
next
  case (Completed l)
  show ?thesis
  proof (cases l)
    case None
    with Completed assms(1) show ?thesis by (simp add: after_loop_def)
  next
    case (Some lastErr)
    obtain u w3 where u: "updateOne env (job_id job) (failed_update cfg lastErr) w2 = (u, w3)"
      by (cases "updateOne env (job_id job) (failed_update cfg lastErr) w2")
    note c = updateOne_cases [OF u]
    show ?thesis
    proof (cases u)
      case None
      with Completed Some u assms(1) c
      have "k \<in> set (update_job (job_id job) (failed_update cfg lastErr) (store w2))"
        by (simp add: after_loop_def)
      from update_job_docs [OF this assms(2)] Completed Some show ?thesis by blast
    next
      case (Some err)
      with Completed \<open>l = Some lastErr\<close> u assms(1)
      have "k \<in> set (store (mark_uncaught cfg env job err w3))" by (simp add: after_loop_def)
      from mark_uncaught_docs [OF this assms(2)] c Some Completed \<open>l = Some lastErr\<close>
      show ?thesis by auto
    qed
  qed
qed

lemma claimed_type:
  assumes "claimOldestPending inst now s = (Some job, s1)"
  shows "jtype job \<in> set allowed_types"
proof -
  from claim_Some [OF assms] obtain j where "claimable inst j" "job = claim_update inst now j"
    by blast
  then show ?thesis by (simp add: claimable_def claim_update_def)
qed

text \<open>
  The document of the job that a tick claimed, after the tick: stored by the success
  write of an attempt, by the exhaustion write or by the write of the outer catch, or
  left as the claim returned it. \<open>calls\<close> is the number of calls of a typed operation that
  the tick made, one for each attempt of such a job.
\<close>

lemma processOne_docs:
  assumes "\<not> busy w"
    and "findOneAndUpdate cfg env now (w\<lparr>busy := True\<rparr>) = (Inr (Some job), w1)"
    and "k \<in> set (store (processOne cfg env now w))" and "job_id k = job_id job"
  shows "(status k = SUCCEEDED \<and>
          (\<exists>n. gcalls (processOne cfg env now w) = gcalls w + Suc n \<and>
               attempt job + real n < max_attempts cfg \<and> attempt k = attempt job + real n + 1)) \<or>
         (status k = FAILED \<and> get_prop (error k) ''type'' = JStr ''PROVIDER'' \<and>
          attempt k = max_attempts cfg) \<or>
         (status k = FAILED \<and> get_prop (error k) ''type'' = JStr ''WORKER_UNCAUGHT'' \<and>
          attempt k = attempt job) \<or>
         k = job"
proof -
  obtain x w2 where l: "attempt_loop cfg env job (attempt job) None w1 = (x, w2)"
    by (cases "attempt_loop cfg env job (attempt job) None w1")
  from assms(1,2) l have p: "processOne cfg env now w = after_loop cfg env job (x, w2)"
    by (simp add: processOne_after_loop)
  note f = findOneAndUpdate_Some [OF assms(2)]
  from f have cl: "claimOldestPending (instance_id cfg) now (store w) = (Some job, store w1)"
    by simp
  from f have g1: "gcalls w1 = gcalls w" by (cases w1) (cases w, simp)
  note ty = claimed_type [OF cl]
  from assms(3) p have k: "k \<in> set (store (after_loop cfg env job (x, w2)))" by simp
  from attempt_loop_outcome [OF l]
  consider (same) "store w2 = store w1"
    | (succ) r n where "x = Completed None" "attempt job + real n < max_attempts cfg"
        "store w2 = update_job (job_id job) (success_update (attempt job + real n) r) (store w1)"
        "\<not> lacks_article job \<longrightarrow> gcalls w2 = gcalls w1 + Suc n"
    using ty by auto
  then show ?thesis
  proof cases
    case same
    from after_loop_docs [OF k assms(4)] same claimed_docs [OF cl]
    consider "k = job" | e where "k = failed_update cfg e job" | e where "k = uncaught_update cfg e job"
      by (metis assms(4))
    then show ?thesis
    proof cases
      case 1
      then show ?thesis by simp
    next
      case 2
      then show ?thesis by (simp add: failed_update_def)
    next
      case 3
      then show ?thesis by (simp add: uncaught_update_def)
    qed
  next
    case succ
    have n: "\<not> lacks_article job"
    proof
      assume "lacks_article job"
      from attempt_loop_precondition [OF this, of cfg env "attempt job" None w1] l succ(1,2)
      have "attempt job + real n < max_attempts cfg" "\<not> attempt job < max_attempts cfg"
        by (auto split: if_splits)
      then show False by (smt (verit) of_nat_0_le_iff)
    qed
    from succ(1) k have "k \<in> set (store w2)" by (simp add: after_loop_def)
    with succ(3) have "k \<in> set (update_job (job_id job)
        (success_update (attempt job + real n) r) (store w1))" by simp
    from update_job_docs [OF this assms(4)] obtain k0 where
      "k = success_update (attempt job + real n) r k0" by blast
    then have "status k = SUCCEEDED" "attempt k = attempt job + real n + 1"
      by (simp_all add: success_update_def)
    moreover have "gcalls (processOne cfg env now w) = gcalls w + Suc n"
      unfolding p after_loop_calls using succ(4) n g1 by simp
    ultimately show ?thesis using succ(2) by blast
  qed
qed
lemma loop_success:
  assumes "a < max_attempts cfg" and "try_attempt cfg env job a w = (None, w1)"
  shows "attempt_loop cfg env job a l w = (Completed None, w1)"
  using assms by (subst attempt_loop.simps) simp

lemma loop_failure:
  assumes "a < max_attempts cfg" and "try_attempt cfg env job a w = (Some (Some e), w1)"
  shows "attempt_loop cfg env job a l w =
           attempt_loop cfg env job (a + 1) (Some e) (sleep (300 + a * 300) w1)"
  using assms by (subst attempt_loop.simps) simp

lemma processOne_first_success:
  assumes "\<not> busy w"
    and "findOneAndUpdate cfg env now (w\<lparr>busy := True\<rparr>) = (Inr (Some job), w1)"
    and "attempt job < max_attempts cfg"
    and "dispatch cfg env job w1 = (Inr r, w2)" and "store_fails env (scalls w2) = None"
  shows "store (processOne cfg env now w) =
           update_job (job_id job) (success_update (attempt job) r) (store w1)"
proof -
  from dispatch_frame [OF assms(4)] have f: "store w2 = store w1" by (simp add: same_frame_def)
  have "try_attempt cfg env job (attempt job) w1 =
      (None, w2\<lparr>scalls := Suc (scalls w2),
                store := update_job (job_id job) (success_update (attempt job) r) (store w2)\<rparr>)"
    using assms(4,5) by (simp add: try_attempt_def updateOne_def)
  from loop_success [OF assms(3) this] assms(1,2) f show ?thesis
    by (simp add: processOne_after_loop after_loop_def)
qed

lemma attempt_loop_throws:
  "\<forall>w0. \<exists>e w3. dispatch cfg env job w0 = (Inl (Some e), w3) \<Longrightarrow>
     \<exists>e w'. attempt_loop cfg env job a l w =
        (Completed (if a < max_attempts cfg then Some e else l), w') \<and> same_frame w w'"
proof (induction cfg env job a l w rule: attempt_loop.induct)
  case (1 cfg env job a lastErr w)
  show ?case
  proof (cases "a < max_attempts cfg")
    case False
    then show ?thesis by (subst attempt_loop.simps) simp
  next
    case True
    from "1.prems" obtain e w3 where d: "dispatch cfg env job w = (Inl (Some e), w3)" by blast
    then have t: "try_attempt cfg env job a w = (Some (Some e), w3)" by (simp add: try_attempt_def)
    from dispatch_frame [OF d] have f: "same_frame w w3" .
    from "1.IH" [OF True t [symmetric] refl refl "1.prems"] obtain e' w' where
      ih: "attempt_loop cfg env job (a + 1) (Some e) (sleep (300 + a * 300) w3) =
             (Completed (if a + 1 < max_attempts cfg then Some e' else Some e), w')"
        "same_frame (sleep (300 + a * 300) w3) w'"
      by blast
    have "\<exists>x. (if a + 1 < max_attempts cfg then Some e' else Some e) = Some x" by simp
    then obtain x where x: "(if a + 1 < max_attempts cfg then Some e' else Some e) = Some x" ..
    have "attempt_loop cfg env job a lastErr w = (Completed (Some x), w')"
      unfolding loop_failure [OF True t] ih(1) x ..
    moreover have "same_frame w w'" using f ih(2) by (simp add: same_frame_def sleep_def)
    ultimately show ?thesis using True by auto
  qed
qed

lemma processOne_all_fail:
  assumes "\<not> busy w"
    and "findOneAndUpdate cfg env now (w\<lparr>busy := True\<rparr>) = (Inr (Some job), w1)"
    and "attempt job < max_attempts cfg"
    and "\<forall>w0. \<exists>e w3. dispatch cfg env job w0 = (Inl (Some e), w3)"
    and "store_fails env (scalls w1) = None"
  shows "\<exists>e. store (processOne cfg env now w) =
           update_job (job_id job) (failed_update cfg e) (store w1)"
proof -
  from attempt_loop_throws [OF assms(4), of "attempt job" None w1] assms(3) obtain e w2 where
    l: "attempt_loop cfg env job (attempt job) None w1 = (Completed (Some e), w2)"
    and f: "same_frame w1 w2" by auto
  from f assms(5) have "updateOne env (job_id job) (failed_update cfg e) w2 =
      (None, w2\<lparr>scalls := Suc (scalls w2),
                store := update_job (job_id job) (failed_update cfg e) (store w1)\<rparr>)"
    by (simp add: updateOne_def same_frame_def)
  with assms(1,2) l have "store (processOne cfg env now w) =
      update_job (job_id job) (failed_update cfg e) (store w1)"
    by (simp add: processOne_after_loop after_loop_def)
  then show ?thesis ..
qed

lemma run_ticks_ok:
  assumes "whole (max_attempts cfg)"
  shows "counters_ok cfg (store w) \<Longrightarrow> counters_ok cfg (store (run_ticks cfg env ts w))"
proof (induction ts arbitrary: w)
  case Nil
  then show ?case by simp
next
  case (Cons t ts)
  from processOne_step [OF assms Cons.prems] have "counters_ok cfg (store (processOne cfg env t w))" .
  then show ?case using Cons.IH by simp
qed

text \<open>
  C6 (attempt bound), as the code has it. Let \<^verbatim>\<open>JOB_MAX_ATTEMPTS\<close> be a whole number, and let
  every stored attempt counter be a whole number not above it, as it is when jobs are
  created with attempt 0. Then this stays so under any number of ticks, whatever the
  provider and the store do. For a tick that claims a job, every document with the
  identifier of that job is afterwards in one of four conditions. It is SUCCEEDED, the
  tick made at least one call of a typed operation, and its attempt is the attempt of
  the claimed job plus the number of these calls: the tick makes one call for each
  attempt, with indices attempt, attempt + 1, ..., so what is stored is the index of the
  succeeding attempt plus one; it is at most the ceiling. Or it is FAILED with an error
  of type PROVIDER and its attempt is exactly the ceiling (the exhaustion write). Or it
  is FAILED with an error of type WORKER_UNCAUGHT and its attempt is unchanged (the
  write of the outer catch). Or it is as the claim returned it (no attempt was left, or
  the write failed). Two of these do happen: when the typed operation returns at the
  first attempt of the tick and the store takes the write, the job is stored SUCCEEDED
  with that result and the attempt of the claimed job plus one; when the typed
  operation throws at every attempt and the store takes the write, the job is stored
  FAILED with attempt equal to the ceiling.
\<close>

theorem attempt_bound:
  assumes "whole (max_attempts cfg)" and "counters_whole (store w)"
    and "attempts_bounded cfg (store w)"
  shows "counters_whole (store (run_ticks cfg env ts w)) \<and>
         attempts_bounded cfg (store (run_ticks cfg env ts w)) \<and>
         (\<not> busy w \<and> findOneAndUpdate cfg env now (w\<lparr>busy := True\<rparr>) = (Inr (Some job), w1) \<longrightarrow>
            (\<forall>k \<in> set (store (processOne cfg env now w)). job_id k = job_id job \<longrightarrow>
               (status k = SUCCEEDED \<and> gcalls w < gcalls (processOne cfg env now w) \<and>
                attempt k = attempt job + real (gcalls (processOne cfg env now w) - gcalls w) \<and>
                attempt k \<le> max_attempts cfg) \<or>
               (status k = FAILED \<and> get_prop (error k) ''type'' = JStr ''PROVIDER'' \<and>
                attempt k = max_attempts cfg) \<or>
               (status k = FAILED \<and> get_prop (error k) ''type'' = JStr ''WORKER_UNCAUGHT'' \<and>
                attempt k = attempt job) \<or>
               k = job) \<and>
            (attempt job < max_attempts cfg \<and> dispatch cfg env job w1 = (Inr r, w2) \<and>
             store_fails env (scalls w2) = None \<longrightarrow>
               store (processOne cfg env now w) =
                 update_job (job_id job) (success_update (attempt job) r) (store w1) \<and>
               (\<exists>k \<in> set (store (processOne cfg env now w)). job_id k = job_id job) \<and>
               (\<forall>k \<in> set (store (processOne cfg env now w)). job_id k = job_id job \<longrightarrow>
                  status k = SUCCEEDED \<and> result k = r_result r \<and>
                  attempt k = attempt job + 1 \<and> attempt k \<le> max_attempts cfg)) \<and>
            (attempt job < max_attempts cfg \<and>
             (\<forall>w0. \<exists>e w3. dispatch cfg env job w0 = (Inl (Some e), w3)) \<and>
             store_fails env (scalls w1) = None \<longrightarrow>
               (\<exists>e. store (processOne cfg env now w) =
                  update_job (job_id job) (failed_update cfg e) (store w1)) \<and>
               (\<exists>k \<in> set (store (processOne cfg env now w)). job_id k = job_id job) \<and>
               (\<forall>k \<in> set (store (processOne cfg env now w)). job_id k = job_id job \<longrightarrow>
                  status k = FAILED \<and> attempt k = max_attempts cfg)))"
proof -
  from assms(2,3) have ok: "counters_ok cfg (store w)" by (simp add: counters_ok_def)
  from run_ticks_ok [OF assms(1) ok, of env ts]
  have 1: "counters_whole (store (run_ticks cfg env ts w))"
    and 2: "attempts_bounded cfg (store (run_ticks cfg env ts w))"
    by (simp_all add: counters_ok_def)
  have 3: "(\<forall>k \<in> set (store (processOne cfg env now w)). job_id k = job_id job \<longrightarrow>
               (status k = SUCCEEDED \<and> gcalls w < gcalls (processOne cfg env now w) \<and>
                attempt k = attempt job + real (gcalls (processOne cfg env now w) - gcalls w) \<and>
                attempt k \<le> max_attempts cfg) \<or>
               (status k = FAILED \<and> get_prop (error k) ''type'' = JStr ''PROVIDER'' \<and>
                attempt k = max_attempts cfg) \<or>
               (status k = FAILED \<and> get_prop (error k) ''type'' = JStr ''WORKER_UNCAUGHT'' \<and>
                attempt k = attempt job) \<or>
               k = job) \<and>
            (attempt job < max_attempts cfg \<and> dispatch cfg env job w1 = (Inr r, w2) \<and>
             store_fails env (scalls w2) = None \<longrightarrow>
               store (processOne cfg env now w) =
                 update_job (job_id job) (success_update (attempt job) r) (store w1) \<and>
               (\<exists>k \<in> set (store (processOne cfg env now w)). job_id k = job_id job) \<and>
               (\<forall>k \<in> set (store (processOne cfg env now w)). job_id k = job_id job \<longrightarrow>
                  status k = SUCCEEDED \<and> result k = r_result r \<and>
                  attempt k = attempt job + 1 \<and> attempt k \<le> max_attempts cfg)) \<and>
            (attempt job < max_attempts cfg \<and>
             (\<forall>w0. \<exists>e w3. dispatch cfg env job w0 = (Inl (Some e), w3)) \<and>
             store_fails env (scalls w1) = None \<longrightarrow>
               (\<exists>e. store (processOne cfg env now w) =
                  update_job (job_id job) (failed_update cfg e) (store w1)) \<and>
               (\<exists>k \<in> set (store (processOne cfg env now w)). job_id k = job_id job) \<and>
               (\<forall>k \<in> set (store (processOne cfg env now w)). job_id k = job_id job \<longrightarrow>
                  status k = FAILED \<and> attempt k = max_attempts cfg))"
    if b: "\<not> busy w" and c: "findOneAndUpdate cfg env now (w\<lparr>busy := True\<rparr>) = (Inr (Some job), w1)"
  proof -
    from findOneAndUpdate_Some [OF c]
    have cl: "claimOldestPending (instance_id cfg) now (store w) = (Some job, store w1)" by simp
    from claimed_attempt [OF cl] assms(2) have wa: "whole (attempt job)"
      by (auto simp: counters_whole_def)
    have i: "job \<in> set (store w1)" using cl by (rule claimed_in_store)
    have a: "\<forall>k \<in> set (store (processOne cfg env now w)). job_id k = job_id job \<longrightarrow>
               (status k = SUCCEEDED \<and> gcalls w < gcalls (processOne cfg env now w) \<and>
                attempt k = attempt job + real (gcalls (processOne cfg env now w) - gcalls w) \<and>
                attempt k \<le> max_attempts cfg) \<or>
               (status k = FAILED \<and> get_prop (error k) ''type'' = JStr ''PROVIDER'' \<and>
                attempt k = max_attempts cfg) \<or>
               (status k = FAILED \<and> get_prop (error k) ''type'' = JStr ''WORKER_UNCAUGHT'' \<and>
                attempt k = attempt job) \<or>
               k = job"
    proof (intro ballI impI)
      fix k assume k: "k \<in> set (store (processOne cfg env now w))" "job_id k = job_id job"
      from processOne_docs [OF b c k]
      consider (s) n where "status k = SUCCEEDED"
          "gcalls (processOne cfg env now w) = gcalls w + Suc n"
          "attempt job + real n < max_attempts cfg" "attempt k = attempt job + real n + 1"
        | (o) "(status k = FAILED \<and> get_prop (error k) ''type'' = JStr ''PROVIDER'' \<and>
                attempt k = max_attempts cfg) \<or>
               (status k = FAILED \<and> get_prop (error k) ''type'' = JStr ''WORKER_UNCAUGHT'' \<and>
                attempt k = attempt job) \<or>
               k = job"
        by blast
      then show "(status k = SUCCEEDED \<and> gcalls w < gcalls (processOne cfg env now w) \<and>
                attempt k = attempt job + real (gcalls (processOne cfg env now w) - gcalls w) \<and>
                attempt k \<le> max_attempts cfg) \<or>
               (status k = FAILED \<and> get_prop (error k) ''type'' = JStr ''PROVIDER'' \<and>
                attempt k = max_attempts cfg) \<or>
               (status k = FAILED \<and> get_prop (error k) ''type'' = JStr ''WORKER_UNCAUGHT'' \<and>
                attempt k = attempt job) \<or>
               k = job"
      proof cases
        case s
        from wa obtain m where "attempt job = real m" unfolding whole_iff ..
        then have "whole (attempt job + real n)" unfolding whole_iff
          by (metis of_nat_add)
        from whole_next [OF assms(1) this s(3)] s(4) have "attempt k \<le> max_attempts cfg" by simp
        moreover have "real (gcalls (processOne cfg env now w) - gcalls w) = real n + 1"
          unfolding s(2) by simp
        ultimately show ?thesis using s by simp
      next
        case o
        then show ?thesis by blast
      qed
    qed
    have p1: "store (processOne cfg env now w) =
                 update_job (job_id job) (success_update (attempt job) r) (store w1) \<and>
               (\<exists>k \<in> set (store (processOne cfg env now w)). job_id k = job_id job) \<and>
               (\<forall>k \<in> set (store (processOne cfg env now w)). job_id k = job_id job \<longrightarrow>
                  status k = SUCCEEDED \<and> result k = r_result r \<and>
                  attempt k = attempt job + 1 \<and> attempt k \<le> max_attempts cfg)"
      if lt: "attempt job < max_attempts cfg" and d: "dispatch cfg env job w1 = (Inr r, w2)"
        and sf: "store_fails env (scalls w2) = None"
    proof -
      note e = processOne_first_success [OF b c lt d sf]
      have "job_id (success_update (attempt job) r job) = job_id job"
        by (simp add: success_update_def)
      with i have h: "\<exists>k \<in> set (update_job (job_id job) (success_update (attempt job) r) (store w1)).
          job_id k = job_id job"
        by (rule update_job_hits)
      have q: "\<forall>k \<in> set (update_job (job_id job) (success_update (attempt job) r) (store w1)).
          job_id k = job_id job \<longrightarrow>
            status k = SUCCEEDED \<and> result k = r_result r \<and>
            attempt k = attempt job + 1 \<and> attempt k \<le> max_attempts cfg"
      proof (intro ballI impI)
        fix k assume "k \<in> set (update_job (job_id job) (success_update (attempt job) r) (store w1))"
          "job_id k = job_id job"
        from update_job_docs [OF this] obtain k0 where "k = success_update (attempt job) r k0"
          by blast
        then show "status k = SUCCEEDED \<and> result k = r_result r \<and>
            attempt k = attempt job + 1 \<and> attempt k \<le> max_attempts cfg"
          using whole_next [OF assms(1) wa lt] by (simp add: success_update_def)
      qed
      show ?thesis unfolding e using h q by blast
    qed
    have p2: "(\<exists>e. store (processOne cfg env now w) =
                  update_job (job_id job) (failed_update cfg e) (store w1)) \<and>
               (\<exists>k \<in> set (store (processOne cfg env now w)). job_id k = job_id job) \<and>
               (\<forall>k \<in> set (store (processOne cfg env now w)). job_id k = job_id job \<longrightarrow>
                  status k = FAILED \<and> attempt k = max_attempts cfg)"
      if lt: "attempt job < max_attempts cfg"
        and d: "\<forall>w0. \<exists>e w3. dispatch cfg env job w0 = (Inl (Some e), w3)"
        and sf: "store_fails env (scalls w1) = None"
    proof -
      from processOne_all_fail [OF b c lt d sf] obtain e where
        e: "store (processOne cfg env now w) =
              update_job (job_id job) (failed_update cfg e) (store w1)" ..
      have "job_id (failed_update cfg e job) = job_id job" by (simp add: failed_update_def)
      with i have h: "\<exists>k \<in> set (update_job (job_id job) (failed_update cfg e) (store w1)).
          job_id k = job_id job"
        by (rule update_job_hits)
      have "\<exists>e'. update_job (job_id job) (failed_update cfg e) (store w1) =
          update_job (job_id job) (failed_update cfg e') (store w1)" by blast
      then show ?thesis
        unfolding e using h update_job_failed [of "job_id job" cfg e "store w1"] by blast
    qed
    from a p1 p2 show ?thesis by blast
  qed
  from 1 2 3 show ?thesis by blast
qed
lemma dispatch_job0:
  assumes "default_locale cfg = JUndefined"
  shows "dispatch cfg env (claim_update ''worker-1'' 5000 job0) w =
           call_and_parse cfg env
             (finish env ''KEYWORDS'' (JObj [(''seed'', JStr ''electric bikes''), (''locale'', JStr ''en'')]))
             (entered w)"
proof -
  have t: "jtype (claim_update ''worker-1'' 5000 job0) = ''KEYWORDS''"
    by (simp add: claim_update_def job0_def)
  have p: "payload (claim_update ''worker-1'' 5000 job0) = JObj [(''seed'', JStr ''electric bikes'')]"
    by (simp add: claim_update_def job0_def)
  show ?thesis
    unfolding dispatch_by_type(1) [OF t] p
    by (simp add: generate_accepts(1) js_or_def js_and_def assms)
qed

lemma not_retriable_bad_request: "\<not> isRetriableError (Some bad_request)"
  by (simp add: isRetriableError_def bad_request_def new_error_def error_text_def toLowerCase_def
      lower_char_def js_or_def Let_def)

lemma call_flaky:
  assumes "api_key cfg" and "0 < retry_attempts cfg"
  shows "call_and_parse cfg env_flaky (\<lambda>data. Inr data) w =
           (if pcalls w < 2 then (Inl (Some bad_request), w\<lparr>pcalls := Suc (pcalls w)\<rparr>)
            else (Inr \<lparr>r_result = JObj [], r_tokensUsed = 42, r_model = gemini_model cfg\<rparr>,
                  w\<lparr>pcalls := Suc (pcalls w)\<rparr>))"
proof -
  have c: "clean_text ''{}'' = ''{}''"
    by (simp add: clean_text_def trim_def is_space_def strip_leading_fence_def
        strip_trailing_fence_def toLowerCase_def lower_char_def)
  have p: "parseJSONResponse (json_parse env_flaky) ''{}'' = Inr (JObj [])"
    by (simp add: parseJSONResponse_def c env_flaky_def parse_sample_def)
  have r: "withRetry cfg env_flaky 0 None w =
      (if pcalls w < 2 then (Inl (Some bad_request), w\<lparr>pcalls := Suc (pcalls w)\<rparr>)
       else (Inr (''{}'', 42), w\<lparr>pcalls := Suc (pcalls w)\<rparr>))"
    using assms(2) not_retriable_bad_request
    by (subst withRetry.simps) (simp add: env_flaky_def)
  show ?thesis
    using assms(1) by (simp add: call_and_parse_def generateText_def r p)
qed

lemma try_flaky:
  assumes "api_key cfg" and "0 < retry_attempts cfg" and "default_locale cfg = JUndefined"
  shows "try_attempt cfg env_flaky (claim_update ''worker-1'' 5000 job0) a w =
           (if pcalls w < 2
            then (Some (Some bad_request), w\<lparr>gcalls := Suc (gcalls w), pcalls := Suc (pcalls w)\<rparr>)
            else (None, w\<lparr>gcalls := Suc (gcalls w), pcalls := Suc (pcalls w),
                          scalls := Suc (scalls w),
                          store := update_job ''64b000000000000000000001''
                            (success_update a \<lparr>r_result = JObj [], r_tokensUsed = 42,
                                                r_model = gemini_model cfg\<rparr>) (store w)\<rparr>))"
proof -
  have f: "finish env_flaky ''KEYWORDS'' (JObj [(''seed'', JStr ''electric bikes''), (''locale'', JStr ''en'')])
      = (\<lambda>data. Inr data)"
    by (simp add: env_flaky_def)
  have s: "\<And>n. store_fails env_flaky n = None" by (simp add: env_flaky_def)
  have i: "job_id (claim_update ''worker-1'' 5000 job0) = ''64b000000000000000000001''"
    by (simp add: claim_update_def job0_def)
  show ?thesis
    unfolding try_attempt_def dispatch_job0 [OF assms(3)] f call_flaky [OF assms(1,2)] i
    by (simp add: entered_def updateOne_def s)
qed

lemma call_fenced:
  assumes "api_key cfg" and "0 < retry_attempts cfg"
  shows "call_and_parse cfg env_fenced (\<lambda>data. Inr data) w =
           (Inr \<lparr>r_result = JObj [], r_tokensUsed = 42, r_model = gemini_model cfg\<rparr>,
            w\<lparr>pcalls := Suc (pcalls w)\<rparr>)"
proof -
  have c: "clean_text ''```json {} ```'' = ''{}''"
    by (simp add: clean_text_def trim_def is_space_def strip_leading_fence_def
        strip_trailing_fence_def toLowerCase_def lower_char_def)
  have p: "parseJSONResponse (json_parse env_fenced) ''```json {} ```'' = Inr (JObj [])"
    by (simp add: parseJSONResponse_def c env_fenced_def parse_sample_def)
  have r: "withRetry cfg env_fenced 0 None w =
      (Inr (''```json {} ```'', 42), w\<lparr>pcalls := Suc (pcalls w)\<rparr>)"
    using assms(2) by (subst withRetry.simps) (simp add: env_fenced_def)
  show ?thesis
    using assms(1) by (simp add: call_and_parse_def generateText_def r p)
qed

lemma claim_two:
  "claimOldestPending ''worker-1'' 5000 [job_seo, job0] =
     (Some (claim_update ''worker-1'' 5000 job_seo), [claim_update ''worker-1'' 5000 job_seo, job0])"
  by (simp add: claimOldestPending_def claimable_def job_seo_def job0_def allowed_types_def
      claim_update_def replace_job_def Let_def)

lemma claim_second:
  "claimOldestPending ''worker-1'' 6500
     [failed_update default_config e (claim_update ''worker-1'' 5000 job_seo), job0] =
     (Some (claim_update ''worker-1'' 6500 job0),
      [failed_update default_config e (claim_update ''worker-1'' 5000 job_seo),
       claim_update ''worker-1'' 6500 job0])"
  by (simp add: claimOldestPending_def claimable_def job_seo_def job0_def allowed_types_def
      claim_update_def replace_job_def failed_update_def Let_def)

lemma two_ticks:
  "map status (store (run_ticks default_config env_unavailable [5000, 6500] (idle [job_seo, job0])))
     = [FAILED, FAILED] \<and>
   map attempt (store (run_ticks default_config env_unavailable [5000, 6500] (idle [job_seo, job0])))
     = [3, 3]"
proof -
  let ?S = "claim_update ''worker-1'' 5000 job_seo"
  let ?K = "claim_update ''worker-1'' 6500 job0"
  let ?F = "failed_update default_config (precondition_error ?S) ?S"
  let ?w = "idle [job_seo, job0]"
  let ?w1 = "\<lparr>busy = False, store = [?F, job0], pcalls = 0, gcalls = 0, scalls = 2,
      slept = backoffs default_config 0\<rparr>"
  have i: "instance_id default_config = ''worker-1''" by (simp add: default_config_def)
  have sf: "\<And>n. store_fails env_unavailable n = None" by (simp add: env_unavailable_def)
  have ids: "job_id ?S = ''64b000000000000000000003''" "job_id job0 = ''64b000000000000000000001''"
    "job_id ?K = ''64b000000000000000000001''" "job_id job_seo = ''64b000000000000000000003''"
    by (simp_all add: claim_update_def job_seo_def job0_def)
  have c1: "claimOldestPending (instance_id default_config) 5000 (store ?w) = (Some ?S, [?S, job0])"
    unfolding i by (simp add: idle_def claim_two)
  have l: "lacks_article ?S" by (simp add: lacks_article_def claim_update_def job_seo_def job0_def)
  have a1: "attempt ?S = 0" by (simp add: claim_update_def job_seo_def job0_def)
  have lt1: "attempt ?S < max_attempts default_config" by (simp add: a1 default_config_def)
  have u1: "update_job (job_id ?S) (failed_update default_config (precondition_error ?S)) [?S, job0]
      = [?F, job0]"
    by (simp add: update_job_def ids)
  have p1: "processOne default_config env_unavailable 5000 ?w = ?w1"
    using processOne_precondition [OF _ sf sf c1 l lt1]
    unfolding u1 a1 by (simp add: idle_def)
  have c2: "claimOldestPending (instance_id default_config) 6500 (store ?w1) = (Some ?K, [?F, ?K])"
    unfolding i by (simp add: claim_second)
  have a2: "attempt ?K < max_attempts default_config"
    by (simp add: claim_update_def job0_def default_config_def)
  have acc: "params_accepted ?K"
    by (simp add: params_accepted_def claim_update_def job0_def Let_def js_or_def js_and_def)
  have k: "api_key default_config" by (simp add: default_config_def)
  from processOne_transient [OF _ sf sf c2 a2 acc k whole_defaults(5) _ always_transient_unavailable]
  obtain e where
    p2: "store (processOne default_config env_unavailable 6500 ?w1) =
           update_job (job_id ?K) (failed_update default_config e) [?F, ?K]"
    by auto
  have r: "run_ticks default_config env_unavailable [5000, 6500] ?w =
      processOne default_config env_unavailable 6500 ?w1"
    by (simp add: p1)
  have u2: "update_job (job_id ?K) (failed_update default_config e) [?F, ?K] =
      [?F, failed_update default_config e ?K]"
    by (simp add: update_job_def ids failed_update_def)
  show ?thesis
    unfolding r p2 u2 by (simp add: failed_update_def default_config_def)
qed

theorem attempt_bound_witness:
  "whole (max_attempts default_config) \<and>
   counters_whole (store (idle [job_seo, job0])) \<and>
   attempts_bounded default_config (store (idle [job_seo, job0])) \<and>
   attempts_bounded default_config
     (store (run_ticks default_config env_unavailable [5000, 6500] (idle [job_seo, job0]))) \<and>
   map status (store (run_ticks default_config env_unavailable [5000, 6500] (idle [job_seo, job0])))
     = [FAILED, FAILED] \<and>
   map attempt (store (run_ticks default_config env_unavailable [5000, 6500] (idle [job_seo, job0])))
     = [3, 3] \<and>
   map status (store (processOne default_config env_fenced 5000 (idle [job0]))) = [SUCCEEDED] \<and>
   map attempt (store (processOne default_config env_fenced 5000 (idle [job0]))) = [1] \<and>
   map status (store (processOne default_config env_unavailable 5000 (idle [job_seo]))) = [FAILED] \<and>
   map attempt (store (processOne default_config env_unavailable 5000 (idle [job_seo]))) = [3]"
proof -
  let ?J = "claim_update ''worker-1'' 5000 job0"
  let ?S = "claim_update ''worker-1'' 5000 job_seo"
  let ?r = "\<lparr>r_result = JObj [], r_tokensUsed = 42, r_model = gemini_model default_config\<rparr>"
  let ?w1 = "\<lparr>busy = True, store = [?J], pcalls = 0, gcalls = 0, scalls = 1, slept = []\<rparr>"
  let ?w2 = "\<lparr>busy = True, store = [?J], pcalls = 1, gcalls = 1, scalls = 1, slept = []\<rparr>"
  let ?v1 = "\<lparr>busy = True, store = [?S], pcalls = 0, gcalls = 0, scalls = 1, slept = []\<rparr>"
  have wm: "whole (max_attempts default_config)" by (rule whole_defaults(1))
  have cw2: "counters_whole (store (idle [job_seo, job0]))"
    by (simp add: counters_whole_def whole_def idle_def job_seo_def job0_def)
  have ab2: "attempts_bounded default_config (store (idle [job_seo, job0]))"
    by (simp add: attempts_bounded_def idle_def job_seo_def job0_def default_config_def)
  from attempt_bound [OF wm cw2 ab2, of env_unavailable "[5000, 6500]"]
  have 1: "attempts_bounded default_config
     (store (run_ticks default_config env_unavailable [5000, 6500] (idle [job_seo, job0])))"
    by blast
  have cw0: "counters_whole (store (idle [job0]))"
    by (simp add: counters_whole_def whole_def idle_def job0_def)
  have ab0: "attempts_bounded default_config (store (idle [job0]))"
    by (simp add: attempts_bounded_def idle_def job0_def default_config_def)
  have b0: "\<not> busy (idle [job0])" by (simp add: idle_def)
  have c0: "findOneAndUpdate default_config env_fenced 5000 ((idle [job0])\<lparr>busy := True\<rparr>) =
      (Inr (Some ?J), ?w1)"
    by (simp add: findOneAndUpdate_def env_fenced_def claimOldestPending_def claimable_def job0_def
        allowed_types_def claim_update_def replace_job_def Let_def default_config_def idle_def)
  have lt0: "attempt ?J < max_attempts default_config"
    by (simp add: claim_update_def job0_def default_config_def)
  have k: "api_key default_config" "0 < retry_attempts default_config"
    "default_locale default_config = JUndefined"
    by (simp_all add: default_config_def)
  have f: "finish env_fenced ''KEYWORDS'' (JObj [(''seed'', JStr ''electric bikes''), (''locale'', JStr ''en'')])
      = (\<lambda>data. Inr data)"
    by (simp add: env_fenced_def)
  have d0: "dispatch default_config env_fenced ?J ?w1 = (Inr ?r, ?w2)"
    unfolding dispatch_job0 [OF k(3)] f call_fenced [OF k(1,2)] by (simp add: entered_def)
  have s0: "store_fails env_fenced (scalls ?w2) = None" by (simp add: env_fenced_def)
  from attempt_bound [OF wm cw0 ab0, of env_fenced "[]" 5000 ?J ?w1 ?r ?w2] b0 c0 lt0 d0 s0
  have "store (processOne default_config env_fenced 5000 (idle [job0])) =
      update_job (job_id ?J) (success_update (attempt ?J) ?r) (store ?w1)"
    by blast
  then have 2: "map status (store (processOne default_config env_fenced 5000 (idle [job0]))) = [SUCCEEDED]"
    and 3: "map attempt (store (processOne default_config env_fenced 5000 (idle [job0]))) = [1]"
    by (simp_all add: update_job_def success_update_def claim_update_def job0_def)
  have cws: "counters_whole (store (idle [job_seo]))"
    by (simp add: counters_whole_def whole_def idle_def job_seo_def job0_def)
  have abs: "attempts_bounded default_config (store (idle [job_seo]))"
    by (simp add: attempts_bounded_def idle_def job_seo_def job0_def default_config_def)
  have bs: "\<not> busy (idle [job_seo])" by (simp add: idle_def)
  have cs: "findOneAndUpdate default_config env_unavailable 5000 ((idle [job_seo])\<lparr>busy := True\<rparr>) =
      (Inr (Some ?S), ?v1)"
    by (simp add: findOneAndUpdate_def env_unavailable_def claimOldestPending_def claimable_def
        job_seo_def job0_def allowed_types_def claim_update_def replace_job_def Let_def
        default_config_def idle_def)
  have lts: "attempt ?S < max_attempts default_config"
    by (simp add: claim_update_def job_seo_def job0_def default_config_def)
  have ds: "\<forall>w0. \<exists>e w3. dispatch default_config env_unavailable ?S w0 = (Inl (Some e), w3)"
    using dispatch_precondition [OF lacks_job_seo] by blast
  have ss: "store_fails env_unavailable (scalls ?v1) = None" by (simp add: env_unavailable_def)
  from attempt_bound [OF wm cws abs, of env_unavailable "[]" 5000 ?S ?v1] bs cs lts ds ss
  obtain e where "store (processOne default_config env_unavailable 5000 (idle [job_seo])) =
      update_job (job_id ?S) (failed_update default_config e) (store ?v1)"
    by blast
  then have 4: "map status (store (processOne default_config env_unavailable 5000 (idle [job_seo]))) = [FAILED]"
    and 5: "map attempt (store (processOne default_config env_unavailable 5000 (idle [job_seo]))) = [3]"
    by (simp_all add: update_job_def failed_update_def claim_update_def job_seo_def job0_def
        default_config_def)
  from wm cw2 ab2 1 two_ticks 2 3 4 5 show ?thesis by (intro conjI) simp_all
qed

text \<open>
  With a ceiling of 2.5, a job created with attempt 0 whose first two attempts fail is
  tried a third time (its index 2 is below 2.5) and, when that attempt succeeds, is
  stored with attempt 3, which exceeds the ceiling.
\<close>

theorem attempt_bound_counterexample:
  "max_attempts config_fractional = 5 / 2 \<and>
   map attempt (store (idle [job0])) = [0] \<and>
   map status (store (processOne config_fractional env_flaky 5000 (idle [job0]))) = [SUCCEEDED] \<and>
   map attempt (store (processOne config_fractional env_flaky 5000 (idle [job0]))) = [3] \<and>
   \<not> (3 :: real) \<le> max_attempts config_fractional"
proof -
  let ?J = "claim_update ''worker-1'' 5000 job0"
  let ?r = "\<lparr>r_result = JObj [], r_tokensUsed = 42, r_model = gemini_model config_fractional\<rparr>"
  let ?w1 = "\<lparr>busy = True, store = [?J], pcalls = 0, gcalls = 0, scalls = 1, slept = []\<rparr>"
  let ?w1a = "\<lparr>busy = True, store = [?J], pcalls = 1, gcalls = 1, scalls = 1, slept = []\<rparr>"
  let ?w2 = "\<lparr>busy = True, store = [?J], pcalls = 1, gcalls = 1, scalls = 1, slept = [300]\<rparr>"
  let ?w2a = "\<lparr>busy = True, store = [?J], pcalls = 2, gcalls = 2, scalls = 1, slept = [300]\<rparr>"
  let ?w3 = "\<lparr>busy = True, store = [?J], pcalls = 2, gcalls = 2, scalls = 1, slept = [300, 600]\<rparr>"
  let ?w4 = "\<lparr>busy = True,
      store = update_job ''64b000000000000000000001'' (success_update 2 ?r) [?J],
      pcalls = 3, gcalls = 3, scalls = 2, slept = [300, 600]\<rparr>"
  have m: "max_attempts config_fractional = 5 / 2"
    by (simp add: config_fractional_def default_config_def)
  have k: "api_key config_fractional" "0 < retry_attempts config_fractional"
    "default_locale config_fractional = JUndefined"
    by (simp_all add: config_fractional_def default_config_def)
  note t = try_flaky [OF k]
  have c: "findOneAndUpdate config_fractional env_flaky 5000 ((idle [job0])\<lparr>busy := True\<rparr>) =
      (Inr (Some ?J), ?w1)"
    by (simp add: findOneAndUpdate_def env_flaky_def claimOldestPending_def claimable_def job0_def
        allowed_types_def claim_update_def replace_job_def Let_def config_fractional_def
        default_config_def idle_def)
  have a: "attempt ?J = 0" by (simp add: claim_update_def job0_def)
  have t1: "try_attempt config_fractional env_flaky ?J 0 ?w1 = (Some (Some bad_request), ?w1a)"
    by (simp add: t)
  have t2: "try_attempt config_fractional env_flaky ?J 1 ?w2 = (Some (Some bad_request), ?w2a)"
    by (simp add: t)
  have t3: "try_attempt config_fractional env_flaky ?J 2 ?w3 = (None, ?w4)"
    by (simp add: t)
  have s1: "attempt_loop config_fractional env_flaky ?J 0 None ?w1 =
      attempt_loop config_fractional env_flaky ?J 1 (Some bad_request) ?w2"
    using loop_failure [of 0 config_fractional env_flaky ?J ?w1 bad_request ?w1a None] t1
    by (simp add: m sleep_def)
  have s2: "attempt_loop config_fractional env_flaky ?J 1 (Some bad_request) ?w2 =
      attempt_loop config_fractional env_flaky ?J 2 (Some bad_request) ?w3"
    using loop_failure [of 1 config_fractional env_flaky ?J ?w2 bad_request ?w2a "Some bad_request"] t2
    by (simp add: m sleep_def)
  have s3: "attempt_loop config_fractional env_flaky ?J 2 (Some bad_request) ?w3 =
      (Completed None, ?w4)"
    using loop_success [of 2 config_fractional env_flaky ?J ?w3 ?w4 "Some bad_request"] t3
    by (simp add: m)
  have l: "attempt_loop config_fractional env_flaky ?J (attempt ?J) None ?w1 = (Completed None, ?w4)"
    unfolding a s1 s2 s3 ..
  have p: "processOne config_fractional env_flaky 5000 (idle [job0]) = ?w4\<lparr>busy := False\<rparr>"
    unfolding processOne_after_loop c using l by (simp add: idle_def after_loop_def)
  have "map status (store (processOne config_fractional env_flaky 5000 (idle [job0]))) = [SUCCEEDED]"
    unfolding p by (simp add: update_job_def success_update_def claim_update_def job0_def)
  moreover have "map attempt (store (processOne config_fractional env_flaky 5000 (idle [job0]))) = [3]"
    unfolding p by (simp add: update_job_def success_update_def claim_update_def job0_def)
  ultimately show ?thesis using m by (simp add: idle_def job0_def)
qed
subsection \<open>Interleaved ticks\<close>

lemma next_attempt_busy:
  "next_attempt cfg job a l w = (w', p) \<Longrightarrow> (p = None \<longrightarrow> \<not> busy w') \<and> (p \<noteq> None \<longrightarrow> busy w' = busy w)"
  by (auto simp: next_attempt_def released_def split: if_splits option.splits)

lemma updateOne_busy: "updateOne env i f w = (r, w') \<Longrightarrow> busy w' = busy w"
  by (auto simp: updateOne_def split: option.splits)

lemma findOneAndUpdate_busy: "findOneAndUpdate cfg env now w = (r, w') \<Longrightarrow> busy w' = busy w"
  by (auto simp: findOneAndUpdate_def split: option.splits prod.splits)

lemma dispatch_busy: "dispatch cfg env job w = (r, w') \<Longrightarrow> busy w' = busy w"
  using dispatch_frame by (auto simp: same_frame_def)

lemma resume_busy:
  "resume cfg env p w = (w', q) \<Longrightarrow> (q = None \<longrightarrow> \<not> busy w') \<and> (q \<noteq> None \<longrightarrow> busy w' = busy w)"
proof (cases p)
  case (Claiming now)
  obtain r w1 where c: "findOneAndUpdate cfg env now w = (r, w1)"
    by (cases "findOneAndUpdate cfg env now w")
  assume a: "resume cfg env p w = (w', q)"
  from findOneAndUpdate_busy [OF c] have b: "busy w1 = busy w" .
  show ?thesis
  proof (cases r)
    case (Inl e)
    with a c Claiming show ?thesis by (auto simp: released_def)
  next
    case (Inr jo)
    show ?thesis
    proof (cases jo)
      case None
      with a c Claiming Inr show ?thesis by (auto simp: released_def)
    next
      case (Some job)
      with a c Claiming Inr have "next_attempt cfg job (attempt job) None w1 = (w', q)" by simp
      from next_attempt_busy [OF this] b show ?thesis by simp
    qed
  qed
next
  case (Attempting job a)
  obtain r w1 where d: "dispatch cfg env job w = (r, w1)" by (cases "dispatch cfg env job w")
  assume a: "resume cfg env p w = (w', q)"
  from dispatch_busy [OF d] have b: "busy w1 = busy w" .
  from a d Attempting b show ?thesis by (auto split: sum.splits option.splits)
next
  case (Writing job a r)
  obtain u w1 where u: "updateOne env (job_id job) (success_update a r) w = (u, w1)"
    by (cases "updateOne env (job_id job) (success_update a r) w")
  assume a: "resume cfg env p w = (w', q)"
  from updateOne_busy [OF u] have b: "busy w1 = busy w" .
  from a u Writing b show ?thesis by (auto simp: released_def split: option.splits)
next
  case (Backoff job a err)
  assume a: "resume cfg env p w = (w', q)"
  with Backoff have "next_attempt cfg job (a + 1) (Some err) (sleep (300 + a * 300) w) = (w', q)"
    by simp
  from next_attempt_busy [OF this] show ?thesis by (simp add: sleep_def)
next
  case (Failing job e)
  obtain u w1 where u: "updateOne env (job_id job) (failed_update cfg e) w = (u, w1)"
    by (cases "updateOne env (job_id job) (failed_update cfg e) w")
  assume a: "resume cfg env p w = (w', q)"
  from updateOne_busy [OF u] have b: "busy w1 = busy w" .
  from a u Failing b show ?thesis by (auto simp: released_def split: option.splits)
next
  case (Marking job err)
  assume a: "resume cfg env p w = (w', q)"
  with Marking show ?thesis by (auto simp: released_def)
qed

lemma step_inv:
  assumes "single_flight_inv st"
  shows "single_flight_inv (step cfg env e st)"
proof -
  obtain w ts where st: "st = (w, ts)" by (cases st)
  from assms st have l: "length ts \<le> 1" and b: "busy w \<longleftrightarrow> ts \<noteq> []"
    by (simp_all add: single_flight_inv_def)
  show ?thesis
  proof (cases e)
    case (Tick now)
    with st l b show ?thesis by (auto simp: single_flight_inv_def)
  next
    case (Resume i)
    show ?thesis
    proof (cases "i < length ts")
      case False
      with st Resume assms show ?thesis by simp
    next
      case True
      with l have i: "i = 0" and ts: "ts = [ts ! 0]" by (cases ts; simp)+
      obtain w' q where r: "resume cfg env (ts ! 0) w = (w', q)"
        by (cases "resume cfg env (ts ! 0) w")
      note rb = resume_busy [OF r]
      have bw: "busy w" using b ts by auto
      show ?thesis
      proof (cases q)
        case None
        with rb have "\<not> busy w'" by simp
        moreover have "take 0 ts @ drop (Suc 0) ts = []" using ts by (cases ts) auto
        ultimately show ?thesis using st Resume True i r None by (simp add: single_flight_inv_def)
      next
        case (Some p)
        with rb bw have "busy w'" by simp
        moreover have "length (ts[0 := p]) \<le> 1" "ts[0 := p] \<noteq> []" using l ts by auto
        ultimately show ?thesis using st Resume True i r Some by (simp add: single_flight_inv_def)
      qed
    qed
  qed
qed

lemma run_events_inv:
  "single_flight_inv st \<Longrightarrow> single_flight_inv (run_events cfg env es st)"
  unfolding run_events_def
  by (induction es arbitrary: st) (simp_all add: step_inv)

lemma finish_released: "finish_tick n cfg env (released w) = Some (w\<lparr>busy := False\<rparr>)"
  by (simp add: released_def)

lemma finish_marking:
  "0 < n \<Longrightarrow> finish_tick n cfg env (w, Some (Marking job err)) =
     Some ((mark_uncaught cfg env job err w)\<lparr>busy := False\<rparr>)"
  by (cases n) (simp_all add: finish_released)

lemma finish_failing:
  assumes "2 \<le> n"
  shows "finish_tick n cfg env (w, Some (Failing job e)) =
           Some (after_loop cfg env job (Completed (Some e), w))"
proof -
  from assms obtain m where n: "n = Suc m" and m: "0 < m" by (cases n) auto
  obtain u w1 where u: "updateOne env (job_id job) (failed_update cfg e) w = (u, w1)"
    by (cases "updateOne env (job_id job) (failed_update cfg e) w")
  show ?thesis
  proof (cases u)
    case None
    with n u show ?thesis by (simp add: after_loop_def finish_released)
  next
    case (Some err)
    with n u m show ?thesis by (simp add: after_loop_def finish_marking)
  qed
qed

lemma loop_refines:
  "\<forall>n. 3 * attempts_left cfg a + 2 \<le> n \<longrightarrow>
     finish_tick n cfg env (next_attempt cfg job a l w) =
       Some (after_loop cfg env job (attempt_loop cfg env job a l w))"
proof (induction cfg env job a l w rule: attempt_loop.induct)
  case (1 cfg env job a lastErr w)
  show ?case
  proof (intro allI impI)
    fix n assume n: "3 * attempts_left cfg a + 2 \<le> n"
    show "finish_tick n cfg env (next_attempt cfg job a lastErr w) =
            Some (after_loop cfg env job (attempt_loop cfg env job a lastErr w))"
    proof (cases "a < max_attempts cfg")
      case False
      then have al: "attempt_loop cfg env job a lastErr w = (Completed lastErr, w)"
        by (subst attempt_loop.simps) simp
      show ?thesis
      proof (cases lastErr)
        case None
        with False al show ?thesis
          by (simp add: next_attempt_def finish_released after_loop_def)
      next
        case (Some e)
        from n have "2 \<le> n" by simp
        from finish_failing [OF this] False al Some show ?thesis
          by (simp add: next_attempt_def)
      qed
    next
      case True
      from n have "3 * attempts_left cfg (a + 1) + 5 \<le> n"
        unfolding attempts_left_step [OF True] by simp
      then obtain m where nm: "n = Suc m" and m: "3 * attempts_left cfg (a + 1) + 4 \<le> m"
        by (cases n) auto
      obtain t w1 where t: "try_attempt cfg env job a w = (t, w1)"
        by (cases "try_attempt cfg env job a w")
      obtain d wd where d: "dispatch cfg env job w = (d, wd)"
        by (cases "dispatch cfg env job w")
      have start: "finish_tick n cfg env (next_attempt cfg job a lastErr w) =
              finish_tick m cfg env (resume cfg env (Attempting job a) w)"
        using True nm by (simp add: next_attempt_def)
      show ?thesis
      proof (cases d)
        case (Inl th)
        with d t have tt: "t = Some th" "w1 = wd" by (simp_all add: try_attempt_def)
        show ?thesis
        proof (cases th)
          case None
          have "attempt_loop cfg env job a lastErr w =
                  (Escaped (TypeError ''Cannot read properties of undefined (reading 'message')''), wd)"
            using True t tt None by (subst attempt_loop.simps) simp
          moreover have "0 < m" using m by simp
          ultimately show ?thesis using start d Inl None
            by (simp add: finish_marking after_loop_def)
        next
          case (Some err)
          have al: "attempt_loop cfg env job a lastErr w =
                  attempt_loop cfg env job (a + 1) (Some err) (sleep (300 + a * 300) wd)"
            using True t tt Some by (subst attempt_loop.simps) simp
          from m obtain k where mk: "m = Suc k" and k: "3 * attempts_left cfg (a + 1) + 2 \<le> k"
            by (cases m) auto
          from "1.IH" [OF True t [symmetric] tt(1) Some] tt(2) k
          have "finish_tick k cfg env (next_attempt cfg job (a + 1) (Some err) (sleep (300 + a * 300) wd)) =
                  Some (after_loop cfg env job
                    (attempt_loop cfg env job (a + 1) (Some err) (sleep (300 + a * 300) wd)))"
            by simp
          then show ?thesis using start d Inl Some mk al by simp
        qed
      next
        case (Inr r)
        obtain u w2 where u: "updateOne env (job_id job) (success_update a r) wd = (u, w2)"
          by (cases "updateOne env (job_id job) (success_update a r) wd")
        from m obtain k where mk: "m = Suc k" and k: "3 * attempts_left cfg (a + 1) + 3 \<le> k"
          by (cases m) auto
        have s2: "finish_tick n cfg env (next_attempt cfg job a lastErr w) =
              finish_tick k cfg env (resume cfg env (Writing job a r) wd)"
          using start d Inr mk by simp
        show ?thesis
        proof (cases u)
          case None
          with d Inr u t have tt: "t = None" "w1 = w2" by (simp_all add: try_attempt_def)
          have "attempt_loop cfg env job a lastErr w = (Completed None, w2)"
            using True t tt by (subst attempt_loop.simps) simp
          then show ?thesis using s2 u None by (simp add: finish_released after_loop_def)
        next
          case (Some e)
          with d Inr u t have tt: "t = Some (Some e)" "w1 = w2" by (simp_all add: try_attempt_def)
          have al: "attempt_loop cfg env job a lastErr w =
                  attempt_loop cfg env job (a + 1) (Some e) (sleep (300 + a * 300) w2)"
            using True t tt by (subst attempt_loop.simps) simp
          from k obtain j where kj: "k = Suc j" and j: "3 * attempts_left cfg (a + 1) + 2 \<le> j"
            by (cases k) auto
          from "1.IH" [OF True t [symmetric] tt(1) refl] tt(2) j
          have "finish_tick j cfg env (next_attempt cfg job (a + 1) (Some e) (sleep (300 + a * 300) w2)) =
                  Some (after_loop cfg env job
                    (attempt_loop cfg env job (a + 1) (Some e) (sleep (300 + a * 300) w2)))"
            by simp
          then show ?thesis using s2 u Some kj al by simp
        qed
      qed
    qed
  qed
qed

lemma foldr_max_ge: "j \<in> set s \<Longrightarrow> f j \<le> foldr (\<lambda>j. max (f j)) s (0::nat)"
  by (induction s) auto

lemma tick_refines:
  assumes "\<not> busy w"
  shows "finish_tick (tick_steps cfg (store w)) cfg env (w\<lparr>busy := True\<rparr>, Some (Claiming now)) =
           Some (processOne cfg env now w)"
proof -
  obtain c w1 where c: "findOneAndUpdate cfg env now (w\<lparr>busy := True\<rparr>) = (c, w1)"
    by (cases "findOneAndUpdate cfg env now (w\<lparr>busy := True\<rparr>)")
  let ?m = "foldr (\<lambda>j. max (attempts_left cfg (attempt j))) (store w) 0"
  have f: "tick_steps cfg (store w) = Suc (3 * ?m + 2)" by (simp add: tick_steps_def)
  show ?thesis
  proof (cases c)
    case (Inl e)
    with assms c show ?thesis
      unfolding f by (simp add: processOne_after_loop finish_released)
  next
    case (Inr jo)
    show ?thesis
    proof (cases jo)
      case None
      with assms c Inr show ?thesis
        unfolding f by (simp add: processOne_after_loop finish_released)
    next
      case (Some job)
      from c Inr Some findOneAndUpdate_Some [of cfg env now "w\<lparr>busy := True\<rparr>" job w1]
      have "claimOldestPending (instance_id cfg) now (store w) = (Some job, store w1)" by simp
      from claimed_attempt [OF this] obtain j where j: "j \<in> set (store w)" "attempt job = attempt j"
        by blast
      from foldr_max_ge [OF j(1), of "\<lambda>j. attempts_left cfg (attempt j)"] j(2)
      have "3 * attempts_left cfg (attempt job) + 2 \<le> 3 * ?m + 2" by simp
      with loop_refines [of cfg "attempt job" env job None w1]
      have "finish_tick (3 * ?m + 2) cfg env (next_attempt cfg job (attempt job) None w1) =
              Some (after_loop cfg env job (attempt_loop cfg env job (attempt job) None w1))"
        by blast
      with assms c Inr Some show ?thesis
        unfolding f by (simp add: processOne_after_loop)
    qed
  qed
qed

text \<open>
  C7 (single flight). A tick that finds the flag set returns the state as it is: no claim,
  no write. A tick that finds it clear returns with the flag clear, whatever the
  provider and the store do: success, exhaustion, no job, a failing claim or a failing
  write. Resumed at its awaits until it is over (three resumptions for each attempt that
  the loop can make on a job of the store, and three more, are enough), a tick ends in
  the state that \<^verbatim>\<open>processOne\<close> computes in one go. However timer ticks and resumptions interleave, from a
  state with the flag clear and no tick in flight, at most one tick is in flight at any
  moment and the flag is set exactly while one is: two claim-and-process cycles never
  run at the same time in one instance.
\<close>

theorem single_flight:
  "(busy w \<longrightarrow> processOne cfg env now w = w) \<and>
   (busy w \<longrightarrow> step cfg env (Tick now) (w, ts) = (w, ts)) \<and>
   (\<not> busy w \<longrightarrow> \<not> busy (processOne cfg env now w)) \<and>
   (\<not> busy w \<longrightarrow>
      finish_tick (tick_steps cfg (store w)) cfg env (w\<lparr>busy := True\<rparr>, Some (Claiming now)) =
        Some (processOne cfg env now w)) \<and>
   (\<not> busy w \<longrightarrow>
      length (snd (run_events cfg env es (w, []))) \<le> 1 \<and>
      (busy (fst (run_events cfg env es (w, []))) \<longleftrightarrow> snd (run_events cfg env es (w, [])) \<noteq> []))"
proof -
  have "\<not> busy w \<Longrightarrow> single_flight_inv (run_events cfg env es (w, []))"
    by (rule run_events_inv) (simp add: single_flight_inv_def)
  then show ?thesis
    using processOne_busy [of w cfg env now] tick_refines [of w cfg env now]
    by (auto simp: single_flight_inv_def)
qed

theorem single_flight_witness:
  "busy ((idle [job0])\<lparr>busy := True\<rparr>) \<and>
   processOne default_config env_unavailable 5000 ((idle [job0])\<lparr>busy := True\<rparr>)
     = (idle [job0])\<lparr>busy := True\<rparr> \<and>
   \<not> busy (idle [job0]) \<and>
   \<not> busy (processOne default_config env_unavailable 5000 (idle [job0])) \<and>
   length (snd (run_events default_config env_unavailable
     [Tick 5000, Tick 6500, Resume 0, Tick 8000, Resume 0] (idle [job0], []))) \<le> 1"
proof -
  have b: "busy ((idle [job0])\<lparr>busy := True\<rparr>)" by simp
  have n: "\<not> busy (idle [job0])" by (simp add: idle_def)
  from single_flight [of "(idle [job0])\<lparr>busy := True\<rparr>" default_config env_unavailable 5000] b
  have 1: "processOne default_config env_unavailable 5000 ((idle [job0])\<lparr>busy := True\<rparr>)
     = (idle [job0])\<lparr>busy := True\<rparr>" by blast
  note t = single_flight [of "idle [job0]" default_config env_unavailable 5000 "[]"
      "[Tick 5000, Tick 6500, Resume 0, Tick 8000, Resume 0]"]
  from t n have 2: "\<not> busy (processOne default_config env_unavailable 5000 (idle [job0]))" by blast
  from t n have 3: "length (snd (run_events default_config env_unavailable
     [Tick 5000, Tick 6500, Resume 0, Tick 8000, Resume 0] (idle [job0], []))) \<le> 1" by blast
  from b n 1 2 3 show ?thesis by (intro conjI)
qed


end
